theory Spec2Isabelle
  imports Complex_Main "HOL-Library.Sublist"
begin

section \<open>QR keychain generator: the program as HOL functions\<close>

text \<open>
  The program (\<^verbatim>\<open>main.py\<close>) builds, for every tag index of an inclusive range, a
  constructive-solid-geometry scene (a QR relief, a text relief, a rounded body with a
  hole), places it on a grid of a build plate and hands every full plate to the CSG
  library for export.

  Modelling decisions, all visible in the definitions below:
  \<^item> Python \<^verbatim>\<open>float\<close> values are ideal reals (\<^typ>\<open>real\<close>): rounding, infinities and NaN
    are not modelled. Python \<^verbatim>\<open>int\<close> is \<^typ>\<open>int\<close>; \<^verbatim>\<open>//\<close> and \<^verbatim>\<open>%\<close> are \<open>div\<close> and
    \<open>mod\<close> on \<^typ>\<open>int\<close> (both round towards minus infinity, as Python does).
  \<^item> The scene objects of the CSG library are the terms of the datatype \<open>solid\<close>: one
    constructor for each library operation the program calls. The program only builds
    such terms; their meaning as point sets is given separately by \<open>pts\<close>.
  \<^item> The QR encoder and the text renderer are external: the encoder is a parameter
    \<open>enc\<close> (payload to boolean matrix), the renderer a parameter of \<open>pts\<close>.
  \<^item> Exceptions are values: a function that can raise returns a sum, \<open>Inl\<close> carrying
    the error (and, for the batch loop, the state reached when it was raised).
\<close>

subsection \<open>Scene terms of the CSG library\<close>

datatype solid =
    EmptyUnion                            \<comment> \<open>\<^verbatim>\<open>union()\<close>\<close>
  | Cube real real real                   \<comment> \<open>\<^verbatim>\<open>cube(x, y, z)\<close>, \<^verbatim>\<open>cube([x, y, z])\<close>\<close>
  | Cylinder real real                    \<comment> \<open>\<^verbatim>\<open>cylinder(r=r, h=h)\<close>\<close>
  | Text string real string string string \<comment> \<open>\<^verbatim>\<open>text(data, size, halign, valign, font)\<close>\<close>
  | LinearExtrude real solid              \<comment> \<open>\<^verbatim>\<open>s.linear_extrude(height=h)\<close>\<close>
  | Translate real real real solid        \<comment> \<open>\<^verbatim>\<open>s.translate([x, y, z])\<close>\<close>
  | MirrorX solid                         \<comment> \<open>\<^verbatim>\<open>s.mirrorX()\<close>\<close>
  | Hull solid solid                      \<comment> \<open>\<^verbatim>\<open>hull()(a, b)\<close>\<close>
  | Plus solid solid                      \<comment> \<open>\<^verbatim>\<open>a + b\<close>\<close>
  | Minus solid solid                     \<comment> \<open>\<^verbatim>\<open>a - b\<close>\<close>
  | Color string solid                    \<comment> \<open>\<^verbatim>\<open>s.color(name)\<close>\<close>

text \<open>
  The directional shorthands of the library. Each is a translation along one axis:
  \<^verbatim>\<open>right\<close> and \<^verbatim>\<open>left\<close> along \<open>x\<close>, \<^verbatim>\<open>forward\<close> and \<^verbatim>\<open>back\<close> along \<open>y\<close>, \<^verbatim>\<open>up\<close> along \<open>z\<close>;
  \<^verbatim>\<open>left\<close> and \<^verbatim>\<open>back\<close> negate their argument.
\<close>

definition right :: "real \<Rightarrow> solid \<Rightarrow> solid" where
  "right d s = Translate d 0 0 s"

definition left :: "real \<Rightarrow> solid \<Rightarrow> solid" where
  "left d s = Translate (- d) 0 0 s"

definition forward :: "real \<Rightarrow> solid \<Rightarrow> solid" where
  "forward d s = Translate 0 d 0 s"

definition back_by :: "real \<Rightarrow> solid \<Rightarrow> solid" where
  \<comment> \<open>the library's \<^verbatim>\<open>back\<close> (the name is an Isar keyword)\<close>
  "back_by d s = Translate 0 (- d) 0 s"

definition up :: "real \<Rightarrow> solid \<Rightarrow> solid" where
  "up d s = Translate 0 0 d s"

subsection \<open>Errors, arguments\<close>

text \<open>
  \<open>ZeroDivisionError\<close> is the only exception the program's own arithmetic can raise.
  \<open>InvalidConfiguration\<close> and \<open>InvalidGeometry\<close> are the error kinds of the specification;
  no function of the program raises them.
\<close>

datatype py_error = ZeroDivisionError | InvalidConfiguration | InvalidGeometry

record Args =
  start_index :: int
  end_index :: int
  output_dir :: string
  token_width :: real
  token_height :: real
  token_depth :: real
  token_corner_radius :: real
  token_fillet_radius :: real
  qr_border :: real
  colored_print_depth :: real
  text_font :: string
  text_size :: real
  text_border :: real
  hole_radius :: real
  hole_offset :: real
  build_plate_width :: real
  build_plate_height :: real
  build_plate_spacing :: real

text \<open>The defaults of the dataclass.\<close>

definition default_args :: Args where
  "default_args =
     \<lparr> start_index = 1, end_index = 1, output_dir = ''output'',
       token_width = 50, token_height = 60, token_depth = 3,
       token_corner_radius = 4, token_fillet_radius = 1, qr_border = 3,
       colored_print_depth = 6 / 10, text_font = ''Helvetica'', text_size = 7,
       text_border = 3, hole_radius = 3, hole_offset = 3,
       build_plate_width = 254, build_plate_height = 254, build_plate_spacing = 1 \<rparr>"

text \<open>Python's \<^verbatim>\<open>int(x)\<close> on a float truncates towards zero; \<^verbatim>\<open>math.floor\<close> rounds down.\<close>

definition py_int :: "real \<Rightarrow> int" where
  "py_int x = (if 0 \<le> x then \<lfloor>x\<rfloor> else \<lceil>x\<rceil>)"

text \<open>\<^verbatim>\<open>str(n)\<close> for an integer, used by the f-string \<^verbatim>\<open>f"T-{i}"\<close>.\<close>

definition digit_char :: "nat \<Rightarrow> char" where
  "digit_char d = ''0123456789'' ! d"

function str_nat :: "nat \<Rightarrow> string" where
  "str_nat n = (if n < 10 then [digit_char n] else str_nat (n div 10) @ [digit_char (n mod 10)])"
  by pat_completeness auto
termination
  by (relation "measure id") auto

declare str_nat.simps [simp del]

definition str_int :: "int \<Rightarrow> string" where
  "str_int i = (if i < 0 then CHR ''-'' # str_nat (nat (- i)) else str_nat (nat i))"

subsection \<open>\<^verbatim>\<open>qr_code_to_3d_model\<close>\<close>

type_synonym matrix = "bool list list"
type_synonym encoder = "string \<Rightarrow> matrix"

text \<open>The inner loop \<^verbatim>\<open>for x, cell in enumerate(row)\<close>, from column \<open>x\<close> on.\<close>

fun qr_row_loop :: "real \<Rightarrow> real \<Rightarrow> nat \<Rightarrow> nat \<Rightarrow> bool list \<Rightarrow> solid \<Rightarrow> solid" where
  "qr_row_loop pixel_size depth y x [] model = model"
| "qr_row_loop pixel_size depth y x (cell # row) model =
     qr_row_loop pixel_size depth y (Suc x) row
       (if cell
        then Plus model
               (forward (real y * pixel_size)
                  (right (real x * pixel_size) (Cube pixel_size pixel_size depth)))
        else model)"

text \<open>The outer loop \<^verbatim>\<open>for y, row in enumerate(matrix)\<close>, from row \<open>y\<close> on.\<close>

fun qr_matrix_loop :: "real \<Rightarrow> real \<Rightarrow> nat \<Rightarrow> matrix \<Rightarrow> solid \<Rightarrow> solid" where
  "qr_matrix_loop pixel_size depth y [] model = model"
| "qr_matrix_loop pixel_size depth y (row # rows) model =
     qr_matrix_loop pixel_size depth (Suc y) rows (qr_row_loop pixel_size depth y 0 row model)"

text \<open>
  The function from the matrix on (everything after \<^verbatim>\<open>qr.get_matrix()\<close>). The division
  \<^verbatim>\<open>qr_width / num_cells\<close> raises on an empty matrix.
\<close>

definition qr_relief :: "matrix \<Rightarrow> real \<Rightarrow> real \<Rightarrow> py_error + solid" where
  "qr_relief matrix qr_width depth =
     (let num_cells = length matrix in
      if num_cells = 0 then Inl ZeroDivisionError
      else
        let pixel_size = qr_width / real num_cells in
        Inr (Color ''black'' (qr_matrix_loop pixel_size depth 0 matrix EmptyUnion)))"

definition qr_code_to_3d_model :: "encoder \<Rightarrow> string \<Rightarrow> real \<Rightarrow> real \<Rightarrow> py_error + solid" where
  "qr_code_to_3d_model enc data qr_width depth = qr_relief (enc data) qr_width depth"

subsection \<open>\<^verbatim>\<open>create_keychain_body\<close>\<close>

definition main_core :: "real \<Rightarrow> real \<Rightarrow> real \<Rightarrow> real \<Rightarrow> solid" where
  "main_core width height depth radius =
     forward radius (right radius (Cube (width - 2 * radius) (height - 2 * radius) depth))"

definition corners :: "real \<Rightarrow> real \<Rightarrow> real \<Rightarrow> real \<Rightarrow> solid list" where
  "corners width height depth radius =
     (let corner_cylinder = Cylinder radius depth in
      [ forward radius (right radius corner_cylinder),
        forward radius (right (width - radius) corner_cylinder),
        forward (height - radius) (right (width - radius) corner_cylinder),
        forward (height - radius) (right radius corner_cylinder) ])"

definition rounded_edges :: "real \<Rightarrow> real \<Rightarrow> real \<Rightarrow> real \<Rightarrow> solid list" where
  "rounded_edges width height depth radius =
     (let cs = corners width height depth radius in
      [ Hull (cs ! 0) (cs ! 1), Hull (cs ! 1) (cs ! 2),
        Hull (cs ! 2) (cs ! 3), Hull (cs ! 3) (cs ! 0) ])"

text \<open>\<^verbatim>\<open>combined_shape\<close> after the loop \<^verbatim>\<open>for shape in rounded_edges: combined_shape += shape\<close>.\<close>

definition combined_shape :: "real \<Rightarrow> real \<Rightarrow> real \<Rightarrow> real \<Rightarrow> solid" where
  "combined_shape width height depth radius =
     foldl Plus (main_core width height depth radius) (rounded_edges width height depth radius)"

definition keychain_hole :: "real \<Rightarrow> real \<Rightarrow> real \<Rightarrow> real \<Rightarrow> real \<Rightarrow> solid" where
  "keychain_hole width height depth hole_radius' hole_offset' =
     back_by (- 1)
       (forward (height - hole_offset' - (hole_radius' * 2))
          (right (width - hole_offset' - hole_radius')
             (Cylinder hole_radius' (depth + 2))))"

text \<open>
  The function has no \<^verbatim>\<open>raise\<close> and no check of its parameters; the result type is a
  sum so that "signals an error" can be said of it.
\<close>

definition create_keychain_body ::
  "real \<Rightarrow> real \<Rightarrow> real \<Rightarrow> real \<Rightarrow> real \<Rightarrow> real \<Rightarrow> py_error + solid" where
  "create_keychain_body width height depth radius hole_radius' hole_offset' =
     Inr (Color ''white''
       (Minus (combined_shape width height depth radius)
              (keychain_hole width height depth hole_radius' hole_offset')))"

subsection \<open>\<^verbatim>\<open>add_text\<close> and \<^verbatim>\<open>assemble_colored_components\<close>\<close>

definition add_text :: "string \<Rightarrow> real \<Rightarrow> real \<Rightarrow> solid" where
  "add_text data size' depth =
     Color ''black'' (LinearExtrude depth (Text data size' ''center'' ''top'' ''Helvetica''))"

definition front_colored :: "solid \<Rightarrow> solid \<Rightarrow> Args \<Rightarrow> real \<Rightarrow> solid" where
  "front_colored qr_model text_model args text_offset =
     Plus
       (up (token_depth args - colored_print_depth args)
          (forward (qr_border args) (right (qr_border args) qr_model)))
       (up (token_depth args - colored_print_depth args)
          (forward (token_height args - text_border args) (right text_offset text_model)))"

definition back_colored :: "solid \<Rightarrow> solid \<Rightarrow> Args \<Rightarrow> real \<Rightarrow> solid" where
  "back_colored qr_model text_model args text_offset =
     Plus
       (MirrorX (forward (qr_border args) (left (token_width args - qr_border args) qr_model)))
       (MirrorX (forward (token_height args - text_border args) (left text_offset text_model)))"

definition assemble_colored_components :: "solid \<Rightarrow> solid \<Rightarrow> Args \<Rightarrow> real \<Rightarrow> solid" where
  "assemble_colored_components qr_model text_model args text_offset =
     Plus (front_colored qr_model text_model args text_offset)
          (back_colored qr_model text_model args text_offset)"

subsection \<open>The output directory and the export calls\<close>

text \<open>
  What the run does to the outside: \<open>files\<close> are the names of the files present in
  \<^verbatim>\<open>args.output_dir\<close>, \<open>exported\<close> the calls of \<^verbatim>\<open>save_as_stl\<close> so far, oldest first,
  each with the file name (inside the output directory) and the scene it was given.
  The directory is taken to hold plain files only, and a library call to succeed; a
  scene file that the library may leave next to a mesh is not tracked.
\<close>

record world =
  files :: "string list"
  exported :: "(string \<times> solid) list"

text \<open>\<^verbatim>\<open>prepare_output_directory\<close>: every file of the directory is unlinked.\<close>

definition prepare_output_directory :: "world \<Rightarrow> world" where
  "prepare_output_directory w = w\<lparr>files := []\<rparr>"

definition save_as_stl :: "solid \<Rightarrow> string \<Rightarrow> world \<Rightarrow> world" where
  "save_as_stl s name w =
     w\<lparr>files := List.insert name (files w), exported := exported w @ [(name, s)]\<rparr>"

definition body_file :: "int \<Rightarrow> string" where
  "body_file k = ''build_plate_body_'' @ str_int k @ ''.stl''"

definition colored_file :: "int \<Rightarrow> string" where
  "colored_file k = ''build_plate_colored_'' @ str_int k @ ''.stl''"

text \<open>The last loop of \<^verbatim>\<open>main\<close>: the files matching \<^verbatim>\<open>*.scad\<close> are unlinked.\<close>

definition remove_scad :: "world \<Rightarrow> world" where
  "remove_scad w = w\<lparr>files := filter (\<lambda>f. \<not> suffix ''.scad'' f) (files w)\<rparr>"

subsection \<open>\<^verbatim>\<open>main\<close>\<close>

record plate_state =
  current_plate_index :: int
  build_plate_body :: solid
  build_plate_colored :: solid
  outside :: world

text \<open>The two \<^verbatim>\<open>save_as_stl\<close> calls that export the open plate.\<close>

definition export_plate :: "plate_state \<Rightarrow> plate_state" where
  "export_plate st =
     st\<lparr>outside :=
          save_as_stl (build_plate_colored st) (colored_file (current_plate_index st))
            (save_as_stl (build_plate_body st) (body_file (current_plate_index st))
               (outside st))\<rparr>"

text \<open>
  Lines 148 to 155: the roll-over at the start of an iteration. The caller has checked
  that \<open>tokens_per_plate\<close> is not zero.
\<close>

definition roll_over :: "Args \<Rightarrow> int \<Rightarrow> int \<Rightarrow> plate_state \<Rightarrow> plate_state" where
  "roll_over args tokens_per_plate i st =
     (if (i - start_index args) mod tokens_per_plate = 0
      then
        (let st1 = (if current_plate_index st > 0 then export_plate st else st) in
         st1\<lparr>build_plate_body := EmptyUnion, build_plate_colored := EmptyUnion,
             current_plate_index := current_plate_index st1 + 1\<rparr>)
      else st)"

text \<open>Lines 163 to 167: the slot of index \<open>i\<close> on its plate and the offset of that slot.\<close>

definition position_index :: "Args \<Rightarrow> int \<Rightarrow> int \<Rightarrow> int" where
  "position_index args tokens_per_plate i = (i - start_index args) mod tokens_per_plate"

definition row_of :: "int \<Rightarrow> int \<Rightarrow> int" where
  "row_of num_per_row pos = pos div num_per_row"

definition col_of :: "int \<Rightarrow> int \<Rightarrow> int" where
  "col_of num_per_row pos = pos mod num_per_row"

definition x_offset :: "Args \<Rightarrow> int \<Rightarrow> real" where
  "x_offset args col = real_of_int col * (token_width args + build_plate_spacing args)"

definition y_offset :: "Args \<Rightarrow> int \<Rightarrow> real" where
  "y_offset args row = real_of_int row * (token_height args + build_plate_spacing args)"

text \<open>Lines 157 to 161 and 169 to 180: the geometry of one tag, before it is placed.\<close>

definition tag_text :: "int \<Rightarrow> string" where
  "tag_text i = ''T-'' @ str_int i"

definition tag_colored :: "Args \<Rightarrow> solid \<Rightarrow> int \<Rightarrow> solid" where
  "tag_colored args qr_model i =
     assemble_colored_components qr_model
       (add_text (tag_text i) (text_size args) (colored_print_depth args)) args
       ((token_width args - hole_radius args - text_border args) / 2)"

definition tag_body :: "Args \<Rightarrow> solid \<Rightarrow> py_error + solid" where
  "tag_body args colored =
     (case create_keychain_body (token_width args) (token_height args)
             (token_depth args - 1 / 100000) (token_corner_radius args)
             (hole_radius args) (hole_offset args) of
        Inl e \<Rightarrow> Inl e
      | Inr body \<Rightarrow> Inr (Minus body colored))"

text \<open>
  One iteration of \<^verbatim>\<open>for i in range(args.start_index, args.end_index + 1)\<close>. An error
  carries the state in which it was raised.
\<close>

definition tag_step ::
  "Args \<Rightarrow> encoder \<Rightarrow> int \<Rightarrow> int \<Rightarrow> int \<Rightarrow> plate_state \<Rightarrow> (py_error \<times> plate_state) + plate_state" where
  "tag_step args enc num_per_row tokens_per_plate i st =
     (if tokens_per_plate = 0 then Inl (ZeroDivisionError, st)
      else
        let st1 = roll_over args tokens_per_plate i st in
        case qr_code_to_3d_model enc (tag_text i)
               (real_of_int \<lfloor>token_width args - qr_border args * 2\<rfloor>)
               (colored_print_depth args) of
          Inl e \<Rightarrow> Inl (e, st1)
        | Inr qr_model \<Rightarrow>
            if num_per_row = 0 then Inl (ZeroDivisionError, st1)
            else
              let pos = position_index args tokens_per_plate i;
                  row = row_of num_per_row pos;
                  col = col_of num_per_row pos;
                  colored = tag_colored args qr_model i
              in
              case tag_body args colored of
                Inl e \<Rightarrow> Inl (e, st1)
              | Inr body \<Rightarrow>
                  Inr (st1\<lparr>build_plate_body :=
                             Plus (build_plate_body st1)
                               (Translate (x_offset args col) (y_offset args row) 0 body),
                           build_plate_colored :=
                             Plus (build_plate_colored st1)
                               (Translate (x_offset args col) (y_offset args row) 0 colored)\<rparr>))"

fun plate_loop ::
  "Args \<Rightarrow> encoder \<Rightarrow> int \<Rightarrow> int \<Rightarrow> int list \<Rightarrow> plate_state \<Rightarrow> (py_error \<times> plate_state) + plate_state" where
  "plate_loop args enc num_per_row tokens_per_plate [] st = Inr st"
| "plate_loop args enc num_per_row tokens_per_plate (i # is) st =
     (case tag_step args enc num_per_row tokens_per_plate i st of
        Inl e \<Rightarrow> Inl e
      | Inr st' \<Rightarrow> plate_loop args enc num_per_row tokens_per_plate is st')"

text \<open>Lines 144 to 146: the state before the loop.\<close>

definition initial_state :: "world \<Rightarrow> plate_state" where
  "initial_state w = \<lparr> current_plate_index = 0, build_plate_body = EmptyUnion,
                        build_plate_colored = EmptyUnion, outside = w \<rparr>"

text \<open>
  \<^verbatim>\<open>main\<close>, from the parsed arguments on. The two float divisions of lines 140 and 141
  raise on a zero divisor; they come after \<^verbatim>\<open>prepare_output_directory\<close>.
\<close>

definition num_per_row :: "Args \<Rightarrow> int" where
  "num_per_row args =
     py_int (build_plate_width args / (token_width args + build_plate_spacing args))"

definition num_per_column :: "Args \<Rightarrow> int" where
  "num_per_column args =
     py_int (build_plate_height args / (token_height args + build_plate_spacing args))"

definition tokens_per_plate :: "Args \<Rightarrow> int" where
  "tokens_per_plate args = num_per_row args * num_per_column args"

definition main :: "Args \<Rightarrow> encoder \<Rightarrow> world \<Rightarrow> (py_error \<times> world) + world" where
  "main args enc w0 =
     (let w1 = prepare_output_directory w0 in
      if token_width args + build_plate_spacing args = 0 then Inl (ZeroDivisionError, w1)
      else if token_height args + build_plate_spacing args = 0 then Inl (ZeroDivisionError, w1)
      else
        case plate_loop args enc (num_per_row args) (tokens_per_plate args)
               [start_index args .. end_index args] (initial_state w1) of
          Inl (e, st) \<Rightarrow> Inl (e, outside st)
        | Inr st \<Rightarrow>
            let st' = (if current_plate_index st > 0 then export_plate st else st) in
            Inr (remove_scad (outside st')))"

subsection \<open>The meaning of a scene: its set of points\<close>

text \<open>
  The CSG kernel is external to the program. \<open>pts\<close> gives each scene term the point set
  the kernel's operations denote, over ideal reals and with ideal cylinders (the
  tessellation set by \<^verbatim>\<open>set_global_fn\<close> is not modelled): \<^verbatim>\<open>cube\<close> has its corner at the
  origin, \<^verbatim>\<open>cylinder\<close> stands on the plane \<open>z = 0\<close> around the \<open>z\<close> axis, \<^verbatim>\<open>mirrorX\<close> negates
  \<open>x\<close>, \<^verbatim>\<open>hull\<close> is the convex hull of its children, colour does not change the shape.
  The outline a text has in the plane is the renderer's business: \<open>glyphs\<close> is a parameter.
\<close>

type_synonym point = "real \<times> real \<times> real"
type_synonym renderer = "string \<Rightarrow> real \<Rightarrow> string \<Rightarrow> string \<Rightarrow> string \<Rightarrow> (real \<times> real) set"

definition lerp :: "real \<Rightarrow> point \<Rightarrow> point \<Rightarrow> point" where
  "lerp t p q =
     (case p of (px, py, pz) \<Rightarrow> case q of (qx, qy, qz) \<Rightarrow>
        ((1 - t) * px + t * qx, (1 - t) * py + t * qy, (1 - t) * pz + t * qz))"

inductive_set convex_hull :: "point set \<Rightarrow> point set" for S :: "point set" where
  base: "p \<in> S \<Longrightarrow> p \<in> convex_hull S"
| mix: "p \<in> convex_hull S \<Longrightarrow> q \<in> convex_hull S \<Longrightarrow> 0 \<le> t \<Longrightarrow> t \<le> 1 \<Longrightarrow>
        lerp t p q \<in> convex_hull S"

definition shift :: "real \<Rightarrow> real \<Rightarrow> real \<Rightarrow> point \<Rightarrow> point" where
  "shift a b c p = (case p of (x, y, z) \<Rightarrow> (x + a, y + b, z + c))"

definition flip_x :: "point \<Rightarrow> point" where
  "flip_x p = (case p of (x, y, z) \<Rightarrow> (- x, y, z))"

fun pts :: "renderer \<Rightarrow> solid \<Rightarrow> point set" where
  "pts glyphs EmptyUnion = {}"
| "pts glyphs (Cube a b c) = {(x, y, z). 0 \<le> x \<and> x \<le> a \<and> 0 \<le> y \<and> y \<le> b \<and> 0 \<le> z \<and> z \<le> c}"
| "pts glyphs (Cylinder r h) = {(x, y, z). 0 \<le> r \<and> x\<^sup>2 + y\<^sup>2 \<le> r\<^sup>2 \<and> 0 \<le> z \<and> z \<le> h}"
| "pts glyphs (Text d sz ha va f) = {(x, y, z). (x, y) \<in> glyphs d sz ha va f \<and> z = 0}"
| "pts glyphs (LinearExtrude h s) = {(x, y, z). (x, y, 0) \<in> pts glyphs s \<and> 0 \<le> z \<and> z \<le> h}"
| "pts glyphs (Translate a b c s) = shift a b c ` pts glyphs s"
| "pts glyphs (MirrorX s) = flip_x ` pts glyphs s"
| "pts glyphs (Hull s t) = convex_hull (pts glyphs s \<union> pts glyphs t)"
| "pts glyphs (Plus s t) = pts glyphs s \<union> pts glyphs t"
| "pts glyphs (Minus s t) = pts glyphs s - pts glyphs t"
| "pts glyphs (Color c s) = pts glyphs s"

subsection \<open>The run in closed form\<close>

text \<open>
  What the loop is to be compared with. \<open>tag_index\<close> is the tag index at a sequence
  position; \<open>placed_body\<close> and \<open>placed_colored\<close> are the two scenes of a tag as the loop
  adds them to the plate (built by the program's own functions, \<open>projr\<close> taking the
  value of a call that did not raise); plate \<open>j\<close> (counted from 0) of a run of \<open>n\<close> tags
  with capacity \<open>c\<close> holds the positions \<open>plate_positions c n j\<close>.
\<close>

definition tag_index :: "Args \<Rightarrow> nat \<Rightarrow> int" where
  "tag_index args p = start_index args + int p"

definition tag_count :: "Args \<Rightarrow> nat" where
  "tag_count args = nat (end_index args - start_index args + 1)"

definition the_qr_model :: "Args \<Rightarrow> encoder \<Rightarrow> int \<Rightarrow> solid" where
  "the_qr_model args enc i =
     projr (qr_code_to_3d_model enc (tag_text i)
              (real_of_int \<lfloor>token_width args - qr_border args * 2\<rfloor>)
              (colored_print_depth args))"

definition slot_x :: "Args \<Rightarrow> int \<Rightarrow> real" where
  "slot_x args i =
     x_offset args (col_of (num_per_row args) (position_index args (tokens_per_plate args) i))"

definition slot_y :: "Args \<Rightarrow> int \<Rightarrow> real" where
  "slot_y args i =
     y_offset args (row_of (num_per_row args) (position_index args (tokens_per_plate args) i))"

definition placed_colored :: "Args \<Rightarrow> encoder \<Rightarrow> int \<Rightarrow> solid" where
  "placed_colored args enc i =
     Translate (slot_x args i) (slot_y args i) 0 (tag_colored args (the_qr_model args enc i) i)"

definition placed_body :: "Args \<Rightarrow> encoder \<Rightarrow> int \<Rightarrow> solid" where
  "placed_body args enc i =
     Translate (slot_x args i) (slot_y args i) 0
       (projr (tag_body args (tag_colored args (the_qr_model args enc i) i)))"

definition plate_positions :: "nat \<Rightarrow> nat \<Rightarrow> nat \<Rightarrow> nat list" where
  "plate_positions c n j = [j * c ..< min ((j + 1) * c) n]"

definition plate_body :: "Args \<Rightarrow> encoder \<Rightarrow> nat \<Rightarrow> nat \<Rightarrow> solid" where
  "plate_body args enc n j =
     foldl Plus EmptyUnion
       (map (\<lambda>p. placed_body args enc (tag_index args p))
          (plate_positions (nat (tokens_per_plate args)) n j))"

definition plate_colored :: "Args \<Rightarrow> encoder \<Rightarrow> nat \<Rightarrow> nat \<Rightarrow> solid" where
  "plate_colored args enc n j =
     foldl Plus EmptyUnion
       (map (\<lambda>p. placed_colored args enc (tag_index args p))
          (plate_positions (nat (tokens_per_plate args)) n j))"

definition plate_exports :: "Args \<Rightarrow> encoder \<Rightarrow> nat \<Rightarrow> nat \<Rightarrow> (string \<times> solid) list" where
  "plate_exports args enc n j =
     [ (body_file (int j + 1), plate_body args enc n j),
       (colored_file (int j + 1), plate_colored args enc n j) ]"

definition plate_count :: "nat \<Rightarrow> nat \<Rightarrow> nat" where
  "plate_count c n = (n + c - 1) div c"

definition run_exports :: "Args \<Rightarrow> encoder \<Rightarrow> (string \<times> solid) list" where
  "run_exports args enc =
     concat (map (plate_exports args enc (tag_count args))
               [0 ..< plate_count (nat (tokens_per_plate args)) (tag_count args)])"

text \<open>The world after the export calls \<open>es\<close>.\<close>

definition after_exports :: "(string \<times> solid) list \<Rightarrow> world \<Rightarrow> world" where
  "after_exports es w =
     w\<lparr>files := fold List.insert (map fst es) (files w), exported := exported w @ es\<rparr>"

text \<open>The loop state once the tags at positions \<open>0, \<dots>, m\<close> have been placed.\<close>

definition state_after :: "Args \<Rightarrow> encoder \<Rightarrow> world \<Rightarrow> nat \<Rightarrow> plate_state" where
  "state_after args enc w m =
     (let k = m div nat (tokens_per_plate args) in
      \<lparr> current_plate_index = int k + 1,
        build_plate_body = plate_body args enc (Suc m) k,
        build_plate_colored = plate_colored args enc (Suc m) k,
        outside = after_exports (concat (map (plate_exports args enc (Suc m)) [0..<k])) w \<rparr>)"

text \<open>
  The encoder is external. A QR symbol has at least 21 rows; the program relies on the
  matrix not being empty (it divides by the number of rows). \<open>enc_ok enc args n\<close> says
  so for the first \<open>n\<close> tags of the run.
\<close>

definition enc_ok :: "encoder \<Rightarrow> Args \<Rightarrow> nat \<Rightarrow> bool" where
  "enc_ok enc args n = (\<forall>p<n. enc (tag_text (tag_index args p)) \<noteq> [])"

subsection \<open>Observations on the loop\<close>

text \<open>
  Reading a plate back: the scenes added with \<^verbatim>\<open>+=\<close> to an accumulator that started as
  \<^verbatim>\<open>union()\<close>, oldest first, and their number.
\<close>

fun operands :: "solid \<Rightarrow> solid list" where
  "operands (Plus a b) = operands a @ [b]"
| "operands _ = []"

definition tags_on :: "solid \<Rightarrow> nat" where
  "tags_on s = length (operands s)"

text \<open>The file names of the first \<open>k\<close> plates, in the order of export.\<close>

definition plate_names :: "nat \<Rightarrow> string list" where
  "plate_names k = concat (map (\<lambda>j. [body_file (int j + 1), colored_file (int j + 1)]) [0..<k])"

text \<open>
  The number of tags plate \<open>j\<close> is expected to hold: the capacity, and on the last plate
  what is left.
\<close>

definition plate_load :: "nat \<Rightarrow> nat \<Rightarrow> nat \<Rightarrow> nat" where
  "plate_load c n j = (if j + 1 < plate_count c n then c else n - j * c)"


text \<open>
  The loop state once the tag at sequence position \<open>p\<close> has been placed, and the triple
  the program has computed for that tag by then: the running plate counter less one,
  and \<open>row\<close> and \<open>col\<close> of lines 164 and 165.
\<close>

definition state_at :: "Args \<Rightarrow> encoder \<Rightarrow> nat \<Rightarrow> (py_error \<times> plate_state) + plate_state" where
  "state_at args enc p =
     plate_loop args enc (num_per_row args) (tokens_per_plate args)
       [start_index args .. start_index args + int p]
       (initial_state \<lparr>files = [], exported = []\<rparr>)"

definition assignment :: "Args \<Rightarrow> encoder \<Rightarrow> nat \<Rightarrow> (int \<times> int \<times> int) option" where
  "assignment args enc p =
     (case state_at args enc p of
        Inl e \<Rightarrow> None
      | Inr st \<Rightarrow>
          let pos = position_index args (tokens_per_plate args) (start_index args + int p) in
          Some (current_plate_index st - 1, row_of (num_per_row args) pos, col_of (num_per_row args) pos))"

text \<open>
  The plate configuration of the specification: the five lengths are positive, and the
  grid has \<open>floor\<close> of the quotients as its numbers of tokens per row and per column.
\<close>

definition plate_config_ok :: "Args \<Rightarrow> bool" where
  "plate_config_ok args \<longleftrightarrow>
     0 < build_plate_width args \<and> 0 < build_plate_height args \<and> 0 < build_plate_spacing args
     \<and> 0 < token_width args \<and> 0 < token_height args"

definition spec_tokens_per_row :: "Args \<Rightarrow> int" where
  "spec_tokens_per_row args =
     \<lfloor>build_plate_width args / (token_width args + build_plate_spacing args)\<rfloor>"

definition spec_tokens_per_column :: "Args \<Rightarrow> int" where
  "spec_tokens_per_column args =
     \<lfloor>build_plate_height args / (token_height args + build_plate_spacing args)\<rfloor>"

definition spec_tokens_per_plate :: "Args \<Rightarrow> int" where
  "spec_tokens_per_plate args = spec_tokens_per_row args * spec_tokens_per_column args"

text \<open>The encoder never returns an empty matrix.\<close>

definition enc_total :: "encoder \<Rightarrow> bool" where
  "enc_total enc = (\<forall>s. enc s \<noteq> [])"

subsection \<open>Shapes and bounding boxes\<close>

text \<open>
  Coordinates of a point; the tight axis-aligned bounding box of a point set (the set
  lies between the two corners and touches each of the six faces); an axis-aligned
  rectangular prism given by its origin corner and its three sizes; an upright cylinder
  given by its axis, radius and height.
\<close>

definition px :: "point \<Rightarrow> real" where
  "px p = fst p"

definition py :: "point \<Rightarrow> real" where
  "py p = fst (snd p)"

definition pz :: "point \<Rightarrow> real" where
  "pz p = snd (snd p)"

definition bounding_box :: "point set \<Rightarrow> point \<Rightarrow> point \<Rightarrow> bool" where
  "bounding_box S lo hi \<longleftrightarrow>
     (\<forall>p\<in>S. px lo \<le> px p \<and> px p \<le> px hi \<and> py lo \<le> py p \<and> py p \<le> py hi
             \<and> pz lo \<le> pz p \<and> pz p \<le> pz hi)
     \<and> (\<exists>p\<in>S. px p = px lo) \<and> (\<exists>p\<in>S. px p = px hi)
     \<and> (\<exists>p\<in>S. py p = py lo) \<and> (\<exists>p\<in>S. py p = py hi)
     \<and> (\<exists>p\<in>S. pz p = pz lo) \<and> (\<exists>p\<in>S. pz p = pz hi)"

definition prism :: "real \<Rightarrow> real \<Rightarrow> real \<Rightarrow> real \<Rightarrow> real \<Rightarrow> real \<Rightarrow> point set" where
  "prism x0 y0 z0 sx sy sz =
     {(x, y, z). x0 \<le> x \<and> x \<le> x0 + sx \<and> y0 \<le> y \<and> y \<le> y0 + sy \<and> z0 \<le> z \<and> z \<le> z0 + sz}"

definition upright_cylinder :: "real \<Rightarrow> real \<Rightarrow> real \<Rightarrow> real \<Rightarrow> point set" where
  "upright_cylinder cx cy r h = {(x, y, z). (x - cx)\<^sup>2 + (y - cy)\<^sup>2 \<le> r\<^sup>2 \<and> 0 \<le> z \<and> z \<le> h}"

text \<open>
  The cells of a QR matrix that are set, as (row, column); the prism a set cell becomes;
  and the condition that the first and last row and the first and last column of the
  matrix each contain a set cell.
\<close>

definition true_cells :: "matrix \<Rightarrow> (nat \<times> nat) set" where
  "true_cells m = {(row, col). row < length m \<and> col < length (m ! row) \<and> m ! row ! col}"

definition cell_prism :: "real \<Rightarrow> real \<Rightarrow> nat \<Rightarrow> nat \<Rightarrow> point set" where
  "cell_prism cell_size depth row col =
     prism (real col * cell_size) (real row * cell_size) 0 cell_size cell_size depth"

definition extremes_set :: "matrix \<Rightarrow> bool" where
  "extremes_set m \<longleftrightarrow>
     (\<exists>col. (0, col) \<in> true_cells m) \<and> (\<exists>col. (length m - 1, col) \<in> true_cells m)
     \<and> (\<exists>row. (row, 0) \<in> true_cells m) \<and> (\<exists>row. (row, length m - 1) \<in> true_cells m)"

section \<open>Properties\<close>

subsection \<open>Membership in translated and mirrored sets\<close>

lemma mem_shift: "(x, y, z) \<in> shift a b c ` S \<longleftrightarrow> (x - a, y - b, z - c) \<in> S"
proof
  assume "(x, y, z) \<in> shift a b c ` S"
  then obtain p where p: "p \<in> S" "(x, y, z) = shift a b c p" by blast
  obtain u v w where "p = (u, v, w)" by (cases p) auto
  with p show "(x - a, y - b, z - c) \<in> S" by (simp add: shift_def)
next
  assume "(x - a, y - b, z - c) \<in> S"
  then have "shift a b c (x - a, y - b, z - c) \<in> shift a b c ` S" by (rule imageI)
  then show "(x, y, z) \<in> shift a b c ` S" by (simp add: shift_def)
qed


subsection \<open>The font setting\<close>

lemma tag_colored_font: "tag_colored (args\<lparr>text_font := f\<rparr>) q i = tag_colored args q i"
  by (simp add: tag_colored_def assemble_colored_components_def front_colored_def
      back_colored_def)

lemma tag_body_font: "tag_body (args\<lparr>text_font := f\<rparr>) c = tag_body args c"
  by (simp add: tag_body_def)

lemma tag_step_font:
  "tag_step (args\<lparr>text_font := f\<rparr>) enc n c i st = tag_step args enc n c i st"
  by (simp add: tag_step_def tag_colored_font tag_body_font roll_over_def position_index_def
      x_offset_def y_offset_def Let_def export_plate_def split: sum.splits)

lemma plate_loop_font:
  "plate_loop (args\<lparr>text_font := f\<rparr>) enc n c is st = plate_loop args enc n c is st"
  by (induction "is" arbitrary: st) (simp_all add: tag_step_font split: sum.splits)

text \<open>
  Claim C10. Two configurations that differ only in \<open>text_font\<close> produce the same
  geometry: the text relief is built with the literal font \<^verbatim>\<open>"Helvetica"\<close> whatever the
  setting, and the overlay of a tag, its carved body and the whole run (every exported
  plate with its scene, the error if one is raised, the directory) do not depend on it.
\<close>

theorem text_font_has_no_effect:
  "add_text data sz d = Color ''black'' (LinearExtrude d (Text data sz ''center'' ''top'' ''Helvetica''))
   \<and> tag_colored (args\<lparr>text_font := f\<rparr>) q i = tag_colored args q i
   \<and> tag_body (args\<lparr>text_font := f\<rparr>) c = tag_body args c
   \<and> main (args\<lparr>text_font := f\<rparr>) enc w = main args enc w"
  by (simp add: add_text_def tag_colored_font tag_body_font main_def plate_loop_font
      num_per_row_def num_per_column_def tokens_per_plate_def Let_def)

subsection \<open>The body builder checks nothing\<close>

lemma pts_keychain_hole:
  "pts g (keychain_hole w h d hr ho) =
     {(x, y, z). 0 \<le> hr \<and> (x - (w - ho - hr))\<^sup>2 + (y - (h - ho - hr * 2 + 1))\<^sup>2 \<le> hr\<^sup>2
        \<and> 0 \<le> z \<and> z \<le> d + 2}"
proof (rule set_eqI)
  fix p :: point
  obtain x y z where p: "p = (x, y, z)" by (cases p) auto
  have eq: "y - 1 - (h - ho - hr * 2) = y - (h - ho - hr * 2 + 1)" by simp
  have "p \<in> pts g (keychain_hole w h d hr ho) \<longleftrightarrow>
     (0 \<le> hr \<and> (x - (w - ho - hr))\<^sup>2 + (y - 1 - (h - ho - hr * 2))\<^sup>2 \<le> hr\<^sup>2 \<and> 0 \<le> z \<and> z \<le> d + 2)"
    unfolding p by (simp add: keychain_hole_def back_by_def forward_def right_def mem_shift)
  then show "p \<in> pts g (keychain_hole w h d hr ho) \<longleftrightarrow>
     p \<in> {(x, y, z). 0 \<le> hr \<and> (x - (w - ho - hr))\<^sup>2 + (y - (h - ho - hr * 2 + 1))\<^sup>2 \<le> hr\<^sup>2
        \<and> 0 \<le> z \<and> z \<le> d + 2}"
    unfolding p eq by simp
qed

text \<open>
  Claim C4, as stated, fails: with \<open>hole_radius + hole_offset = min width height / 2\<close>
  (20 + 5 = 25 for a 50 by 50 body) the builder returns a scene and no error, and the
  hole of that scene reaches beyond the edge \<open>y = 0\<close> of the body: the point
  \<open>(25, -10, 1)\<close> is in the hole cylinder.
\<close>

theorem create_keychain_body_boundary_no_error:
  "(20::real) + 5 = min 50 50 / 2
   \<and> create_keychain_body 50 50 3 4 20 5 =
       Inr (Color ''white'' (Minus (combined_shape 50 50 3 4) (keychain_hole 50 50 3 20 5)))
   \<and> create_keychain_body 50 50 3 4 20 5 \<noteq> Inl InvalidConfiguration
   \<and> create_keychain_body 50 50 3 4 20 5 \<noteq> Inl InvalidGeometry
   \<and> (25, - 10, 1) \<in> pts (\<lambda>_ _ _ _ _. {}) (keychain_hole 50 50 3 20 5)"
  by (simp add: create_keychain_body_def pts_keychain_hole)

text \<open>
  Claim C4, amended. The builder validates nothing: for every parameter set, those with
  \<open>hole_radius + hole_offset \<ge> min width height / 2\<close> or
  \<open>corner_radius \<ge> min width height / 2\<close> included, it returns the white scene "rounded
  shape minus hole cylinder" and signals no error.
\<close>

theorem create_keychain_body_never_raises:
  "create_keychain_body w h d r hr ho =
     Inr (Color ''white'' (Minus (combined_shape w h d r) (keychain_hole w h d hr ho)))
   \<and> (\<forall>e. create_keychain_body w h d r hr ho \<noteq> Inl e)"
  by (simp add: create_keychain_body_def)

subsection \<open>Zero plate capacity\<close>

text \<open>
  Claim C3, as stated, fails. A token 300 wide does not fit the 254 wide plate, so the
  capacity is zero. With a tag to build the run ends in \<open>ZeroDivisionError\<close> (not in
  \<open>InvalidConfiguration\<close>), and the file that was in the output directory is gone by
  then; with an empty index range the same configuration raises nothing at all.
\<close>

theorem zero_capacity_not_rejected_up_front:
  "tokens_per_plate (default_args\<lparr>token_width := 300\<rparr>) = 0
   \<and> main (default_args\<lparr>token_width := 300\<rparr>) (\<lambda>_. [[True]])
        \<lparr>files = [''old.stl''], exported = []\<rparr>
       = Inl (ZeroDivisionError, \<lparr>files = [], exported = []\<rparr>)
   \<and> main (default_args\<lparr>token_width := 300, start_index := 2, end_index := 1\<rparr>) (\<lambda>_. [[True]])
        \<lparr>files = [''old.stl''], exported = []\<rparr>
       = Inr \<lparr>files = [], exported = []\<rparr>"
  by (simp add: default_args_def tokens_per_plate_def num_per_row_def num_per_column_def
      py_int_def main_def tag_step_def prepare_output_directory_def remove_scad_def
      initial_state_def)

text \<open>
  Claim C3, amended. For every configuration whose computed plate capacity is zero (the
  two divisions that compute it being defined), the run first clears the output
  directory; then, if the index range is not empty, it ends with \<open>ZeroDivisionError\<close>,
  raised in the first iteration before any tag is built or any plate exported, and if the
  range is empty it ends normally with nothing exported. It does not loop forever.
\<close>

theorem main_zero_capacity:
  assumes "tokens_per_plate args = 0"
    and "token_width args + build_plate_spacing args \<noteq> 0"
    and "token_height args + build_plate_spacing args \<noteq> 0"
  shows "main args enc w =
           (if start_index args \<le> end_index args
            then Inl (ZeroDivisionError, w\<lparr>files := []\<rparr>)
            else Inr (w\<lparr>files := []\<rparr>))"
proof (cases "start_index args \<le> end_index args")
  case True
  then have "[start_index args .. end_index args] =
      start_index args # [start_index args + 1 .. end_index args]"
    by (simp add: upto_rec1)
  then show ?thesis using assms True
    by (simp add: main_def tag_step_def prepare_output_directory_def initial_state_def)
next
  case False
  then show ?thesis using assms
    by (simp add: main_def prepare_output_directory_def remove_scad_def initial_state_def)
qed

theorem main_zero_capacity_witness:
  "tokens_per_plate (default_args\<lparr>token_height := 254\<rparr>) = 0
   \<and> token_width (default_args\<lparr>token_height := 254\<rparr>)
       + build_plate_spacing (default_args\<lparr>token_height := 254\<rparr>) \<noteq> 0
   \<and> token_height (default_args\<lparr>token_height := 254\<rparr>)
       + build_plate_spacing (default_args\<lparr>token_height := 254\<rparr>) \<noteq> 0
   \<and> main (default_args\<lparr>token_height := 254\<rparr>) (\<lambda>_. [])
        \<lparr>files = [''a.stl'', ''b.scad''], exported = []\<rparr>
       = Inl (ZeroDivisionError, \<lparr>files = [], exported = []\<rparr>)"
proof -
  have c: "tokens_per_plate (default_args\<lparr>token_height := 254\<rparr>) = 0"
    by (simp add: default_args_def tokens_per_plate_def num_per_row_def num_per_column_def
        py_int_def)
  have w: "token_width (default_args\<lparr>token_height := 254\<rparr>)
       + build_plate_spacing (default_args\<lparr>token_height := 254\<rparr>) \<noteq> 0"
    by (simp add: default_args_def)
  have h: "token_height (default_args\<lparr>token_height := 254\<rparr>)
       + build_plate_spacing (default_args\<lparr>token_height := 254\<rparr>) \<noteq> 0"
    by (simp add: default_args_def)
  show ?thesis
    using main_zero_capacity [OF c w h, of "\<lambda>_. []" "\<lparr>files = [''a.stl'', ''b.scad''], exported = []\<rparr>"]
      c w h
    by (simp add: default_args_def)
qed

subsection \<open>The batch loop\<close>

lemma tag_body_Inr: "tag_body args c = Inr (projr (tag_body args c))"
  by (simp add: tag_body_def create_keychain_body_def)

lemma tag_step_ok:
  assumes "tokens_per_plate args \<noteq> 0" "num_per_row args \<noteq> 0" "enc (tag_text i) \<noteq> []"
  shows "tag_step args enc (num_per_row args) (tokens_per_plate args) i st =
     Inr ((roll_over args (tokens_per_plate args) i st)
           \<lparr>build_plate_body :=
              Plus (build_plate_body (roll_over args (tokens_per_plate args) i st)) (placed_body args enc i),
            build_plate_colored :=
              Plus (build_plate_colored (roll_over args (tokens_per_plate args) i st)) (placed_colored args enc i)\<rparr>)"
proof -
  have q: "qr_code_to_3d_model enc (tag_text i)
              (real_of_int \<lfloor>token_width args - qr_border args * 2\<rfloor>)
              (colored_print_depth args) = Inr (the_qr_model args enc i)"
    using assms(3) by (simp add: the_qr_model_def qr_code_to_3d_model_def qr_relief_def Let_def)
  obtain b where b: "tag_body args (tag_colored args (the_qr_model args enc i) i) = Inr b"
    using tag_body_Inr by blast
  show ?thesis
    unfolding tag_step_def q
    using assms(1,2)
    by (simp add: Let_def placed_body_def placed_colored_def slot_x_def slot_y_def b)
qed

lemma plate_loop_append:
  "plate_loop args enc n c (xs @ ys) st =
     (case plate_loop args enc n c xs st of Inl e \<Rightarrow> Inl e | Inr st' \<Rightarrow> plate_loop args enc n c ys st')"
  by (induction xs arbitrary: st) (simp_all split: sum.splits)

lemma upto_as_map: "[a..b] = map (\<lambda>p. a + int p) [0..<nat (b - a + 1)]"
proof (induction "nat (b - a + 1)" arbitrary: b)
  case 0
  then show ?case by simp
next
  case (Suc n)
  then have ab: "a \<le> b" by linarith
  have n: "n = nat ((b - 1) - a + 1)" using Suc(2) by linarith
  have "[a..b] = [a..b - 1] @ [b]" using ab by (simp add: upto_rec2)
  also have "[a..b - 1] = map (\<lambda>p. a + int p) [0..<n]"
    using Suc(1)[OF n] n by simp
  finally show ?case using Suc(2)[symmetric] ab n by simp
qed


lemma plate_positions_full: "(j + 1) * c \<le> n \<Longrightarrow> plate_positions c n j = [j * c ..< (j + 1) * c]"
  by (simp add: plate_positions_def min_def)

lemma plate_positions_open: "n \<le> (j + 1) * c \<Longrightarrow> plate_positions c n j = [j * c ..< n]"
  by (simp add: plate_positions_def min_def)

lemma plate_exports_full:
  assumes "(j + 1) * nat (tokens_per_plate args) \<le> n" "(j + 1) * nat (tokens_per_plate args) \<le> n'"
  shows "plate_exports args enc n j = plate_exports args enc n' j"
  using assms
  by (simp add: plate_exports_def plate_body_def plate_colored_def plate_positions_full)

lemma int_mod_test: "0 < c \<Longrightarrow> (int p mod c = 0) = (p mod nat c = 0)"
proof -
  assume "0 < c"
  then have "int p mod c = int (p mod nat c)" by (simp add: zmod_int)
  then show ?thesis by simp
qed

lemma div_facts:
  fixes m C :: nat
  assumes "0 < C"
  shows "m div C * C \<le> m" and "Suc m \<le> (m div C + 1) * C"
    and "Suc m mod C = 0 \<Longrightarrow> Suc m div C = Suc (m div C)"
    and "Suc m mod C = 0 \<Longrightarrow> (m div C + 1) * C = Suc m"
    and "Suc m mod C \<noteq> 0 \<Longrightarrow> Suc m div C = m div C"
    and "Suc m mod C \<noteq> 0 \<Longrightarrow> Suc (Suc m) \<le> (m div C + 1) * C"
proof -
  show 1: "m div C * C \<le> m" by simp
  have "m < m div C * C + C"
    using assms by (metis add.commute dividend_less_div_times mult.commute)
  then show 2: "Suc m \<le> (m div C + 1) * C" by simp
  show 3: "Suc m mod C = 0 \<Longrightarrow> Suc m div C = Suc (m div C)" by (simp add: div_Suc)
  show 4: "Suc m mod C = 0 \<Longrightarrow> (m div C + 1) * C = Suc m"
  proof -
    assume z: "Suc m mod C = 0"
    have "Suc m = Suc m div C * C + Suc m mod C" by simp
    with z 3 show ?thesis by simp
  qed
  show 5: "Suc m mod C \<noteq> 0 \<Longrightarrow> Suc m div C = m div C" by (simp add: div_Suc)
  show "Suc m mod C \<noteq> 0 \<Longrightarrow> Suc (Suc m) \<le> (m div C + 1) * C"
  proof -
    assume nz: "Suc m mod C \<noteq> 0"
    have "Suc m = Suc m div C * C + Suc m mod C" by simp
    moreover have "Suc m mod C < C" using assms by simp
    ultimately have "Suc m < Suc m div C * C + C" by linarith
    with 5[OF nz] show ?thesis by simp
  qed
qed


lemma save_after_exports:
  "save_as_stl s n (after_exports es w) = after_exports (es @ [(n, s)]) w"
  by (simp add: save_as_stl_def after_exports_def)

lemma step_state_after:
  assumes c: "0 < tokens_per_plate args" and r: "num_per_row args \<noteq> 0"
    and e: "enc (tag_text (tag_index args (Suc m))) \<noteq> []"
  shows "tag_step args enc (num_per_row args) (tokens_per_plate args) (tag_index args (Suc m))
           (state_after args enc w m) = Inr (state_after args enc w (Suc m))"
proof -
  define C where "C = nat (tokens_per_plate args)"
  have C: "0 < C" using c by (simp add: C_def)
  define k where "k = m div C"
  note F = div_facts[OF C, of m, folded k_def]
  have test: "((tag_index args (Suc m) - start_index args) mod tokens_per_plate args = 0)
      = (Suc m mod C = 0)"
    using int_mod_test[OF c, of "Suc m"] by (simp add: tag_index_def C_def)
  have c0: "tokens_per_plate args \<noteq> 0" using c by simp
  have full: "\<And>j. j \<le> k \<Longrightarrow> Suc m mod C = 0 \<Longrightarrow>
      plate_exports args enc (Suc m) j = plate_exports args enc (Suc (Suc m)) j"
  proof -
    fix j assume j: "j \<le> k" and z: "Suc m mod C = 0"
    have "(j + 1) * C \<le> (k + 1) * C" using j by (intro mult_le_mono1) simp
    also have "\<dots> = Suc m" using F(4)[OF z] .
    finally have "(j + 1) * C \<le> Suc m" .
    then show "plate_exports args enc (Suc m) j = plate_exports args enc (Suc (Suc m)) j"
      by (intro plate_exports_full) (simp_all add: C_def)
  qed
  have closed: "\<And>j. j < k \<Longrightarrow>
      plate_exports args enc (Suc m) j = plate_exports args enc (Suc (Suc m)) j"
  proof -
    fix j assume j: "j < k"
    have "(j + 1) * C \<le> k * C" using j by (intro mult_le_mono1) simp
    also have "\<dots> \<le> m" using F(1) .
    finally have "(j + 1) * C \<le> Suc m" by simp
    then show "plate_exports args enc (Suc m) j = plate_exports args enc (Suc (Suc m)) j"
      by (intro plate_exports_full) (simp_all add: C_def)
  qed
  show ?thesis
  proof (cases "Suc m mod C = 0")
    case True
    have k': "Suc m div C = Suc k" using F(3)[OF True] .
    have pos: "plate_positions C (Suc (Suc m)) (Suc k) = [Suc m]"
    proof -
      have "Suc (Suc m) \<le> (Suc k + 1) * C" using F(4)[OF True] C by simp
      then have "plate_positions C (Suc (Suc m)) (Suc k) = [Suc k * C ..< Suc (Suc m)]"
        by (rule plate_positions_open)
      also have "Suc k * C = Suc m" using F(4)[OF True] by simp
      finally show ?thesis by simp
    qed
    have m1: "map (plate_exports args enc (Suc (Suc m))) [0..<k] =
        map (plate_exports args enc (Suc m)) [0..<k]"
      by (rule map_cong) (auto simp: full[OF _ True, symmetric])
    have m2: "plate_exports args enc (Suc (Suc m)) k = plate_exports args enc (Suc m) k"
      by (simp add: full[OF _ True, symmetric])
    have ex: "concat (map (plate_exports args enc (Suc (Suc m))) [0..<Suc k]) =
        concat (map (plate_exports args enc (Suc m)) [0..<k]) @ plate_exports args enc (Suc m) k"
      by (simp add: m1 m2)
    show ?thesis
      unfolding tag_step_ok[of args enc "tag_index args (Suc m)", OF c0 r e]
      using True test
      by (simp add: roll_over_def state_after_def Let_def export_plate_def save_after_exports
          k_def[symmetric] C_def[symmetric] k' pos m1 m2 plate_body_def plate_colored_def
          plate_exports_def[of args enc "Suc m" k])
  next
    case False
    have k': "Suc m div C = k" using F(5)[OF False] .
    have pos1: "plate_positions C (Suc m) k = [k * C ..< Suc m]"
      using F(2) by (intro plate_positions_open) simp
    have pos2: "plate_positions C (Suc (Suc m)) k = [k * C ..< Suc (Suc m)]"
      using F(6)[OF False] by (intro plate_positions_open) simp
    have le: "k * C \<le> Suc m" using F(1) by simp
    have m1: "map (plate_exports args enc (Suc (Suc m))) [0..<k] =
        map (plate_exports args enc (Suc m)) [0..<k]"
      by (rule map_cong) (auto simp: closed[symmetric])
    have ex: "concat (map (plate_exports args enc (Suc (Suc m))) [0..<k]) =
        concat (map (plate_exports args enc (Suc m)) [0..<k])"
      by (simp add: m1)
    show ?thesis
      unfolding tag_step_ok[of args enc "tag_index args (Suc m)", OF c0 r e]
      using False test le
      by (simp add: roll_over_def state_after_def Let_def
          k_def[symmetric] C_def[symmetric] k' pos1 pos2 ex plate_body_def plate_colored_def)
  qed
qed


lemma after_exports_Nil: "after_exports [] w = w"
  by (simp add: after_exports_def)

lemma first_state_after:
  assumes c: "0 < tokens_per_plate args" and r: "num_per_row args \<noteq> 0"
    and e: "enc (tag_text (tag_index args 0)) \<noteq> []"
  shows "tag_step args enc (num_per_row args) (tokens_per_plate args) (tag_index args 0)
           (initial_state w) = Inr (state_after args enc w 0)"
proof -
  have c0: "tokens_per_plate args \<noteq> 0" using c by simp
  have "Suc 0 \<le> (0 + 1) * nat (tokens_per_plate args)" using c by simp
  then have "plate_positions (nat (tokens_per_plate args)) (Suc 0) 0 = [0 * nat (tokens_per_plate args) ..< Suc 0]"
    by (rule plate_positions_open)
  then have pos: "plate_positions (nat (tokens_per_plate args)) (Suc 0) 0 = [0]"
    by simp
  show ?thesis
    unfolding tag_step_ok[of args enc "tag_index args 0", OF c0 r e]
    by (simp add: roll_over_def state_after_def initial_state_def Let_def tag_index_def
        after_exports_Nil plate_body_def plate_colored_def pos)
qed

lemma loop_prefix:
  assumes c: "0 < tokens_per_plate args" and r: "num_per_row args \<noteq> 0"
    and e: "enc_ok enc args (Suc m)"
  shows "plate_loop args enc (num_per_row args) (tokens_per_plate args)
           (map (tag_index args) [0..<Suc m]) (initial_state w) = Inr (state_after args enc w m)"
  using e
proof (induction m)
  case 0
  then have "enc (tag_text (tag_index args 0)) \<noteq> []" by (simp add: enc_ok_def)
  then show ?case using first_state_after[of args enc w, OF c r] by simp
next
  case (Suc m)
  then have e1: "enc_ok enc args (Suc m)" and e2: "enc (tag_text (tag_index args (Suc m))) \<noteq> []"
    by (simp_all add: enc_ok_def)
  have "map (tag_index args) [0..<Suc (Suc m)] = map (tag_index args) [0..<Suc m] @ [tag_index args (Suc m)]"
    by simp
  then show ?case
    using Suc.IH[OF e1] step_state_after[of args enc m w, OF c r e2]
    by (simp only: plate_loop_append plate_loop.simps sum.case)
qed


lemma capacity_nonzero:
  assumes "tokens_per_plate args \<noteq> 0"
  shows "num_per_row args \<noteq> 0" and "num_per_column args \<noteq> 0"
    and "token_width args + build_plate_spacing args \<noteq> 0"
    and "token_height args + build_plate_spacing args \<noteq> 0"
proof -
  show r: "num_per_row args \<noteq> 0" and cl: "num_per_column args \<noteq> 0"
    using assms by (auto simp: tokens_per_plate_def)
  show "token_width args + build_plate_spacing args \<noteq> 0"
    using r by (auto simp: num_per_row_def py_int_def)
  show "token_height args + build_plate_spacing args \<noteq> 0"
    using cl by (auto simp: num_per_column_def py_int_def)
qed

lemma plate_count_Suc: "0 < c \<Longrightarrow> plate_count c (Suc m) = Suc (m div c)"
  by (simp add: plate_count_def)

lemma main_runs:
  assumes c: "0 < tokens_per_plate args" and s: "start_index args \<le> end_index args"
    and e: "enc_ok enc args (tag_count args)"
  shows "main args enc w0 =
     Inr (remove_scad (after_exports (run_exports args enc) (prepare_output_directory w0)))"
proof -
  define m where "m = nat (end_index args - start_index args)"
  have n: "tag_count args = Suc m" using s by (simp add: tag_count_def m_def)
  have c0: "tokens_per_plate args \<noteq> 0" using c by simp
  note nz = capacity_nonzero[OF c0]
  have range: "[start_index args .. end_index args] = map (tag_index args) [0..<Suc m]"
    using upto_as_map[of "start_index args" "end_index args"] n
    by (simp add: tag_count_def tag_index_def[abs_def])
  have loop: "plate_loop args enc (num_per_row args) (tokens_per_plate args)
      [start_index args .. end_index args] (initial_state (prepare_output_directory w0))
      = Inr (state_after args enc (prepare_output_directory w0) m)"
    unfolding range using e loop_prefix[OF c nz(1), of enc m] by (simp add: n)
  have C: "0 < nat (tokens_per_plate args)" using c by simp
  have fin: "outside (export_plate (state_after args enc (prepare_output_directory w0) m)) =
      after_exports (run_exports args enc) (prepare_output_directory w0)"
    by (simp add: export_plate_def state_after_def Let_def save_after_exports run_exports_def n
        plate_count_Suc[OF C] plate_exports_def)
  have pos: "0 < current_plate_index (state_after args enc (prepare_output_directory w0) m)"
    by (simp add: state_after_def Let_def)
  show ?thesis
    using nz(3,4) loop fin pos
    by (simp add: main_def Let_def)
qed

lemma main_empty_range:
  assumes "end_index args < start_index args"
    and "token_width args + build_plate_spacing args \<noteq> 0"
    and "token_height args + build_plate_spacing args \<noteq> 0"
  shows "main args enc w0 = Inr (w0\<lparr>files := []\<rparr>)"
  using assms
  by (simp add: main_def prepare_output_directory_def remove_scad_def initial_state_def)

subsection \<open>Plates: exports, assignment\<close>

lemma operands_foldl: "operands (foldl Plus a xs) = operands a @ xs"
  by (induction xs arbitrary: a) simp_all

lemma plate_count_ceiling:
  assumes "0 < c"
  shows "int (plate_count c n) = \<lceil>real n / real c\<rceil>"
proof (cases n)
  case 0
  then show ?thesis using assms by (simp add: plate_count_def)
next
  case (Suc m)
  have "\<lceil>real (Suc m) / real c\<rceil> = int (m div c) + 1"
  proof (rule ceiling_unique)
    have "real (m div c * c) \<le> real m"
      using div_facts(1)[OF assms, of m] by (simp only: of_nat_le_iff)
    then have a: "real (m div c) * real c \<le> real m" by simp
    have "real (Suc m) \<le> real ((m div c + 1) * c)"
      using div_facts(2)[OF assms, of m] by (simp only: of_nat_le_iff)
    then have b: "real (Suc m) \<le> (real (m div c) + 1) * real c" by (simp add: algebra_simps)
    have cpos: "0 < real c" using assms by simp
    show "real_of_int (int (m div c) + 1) - 1 < real (Suc m) / real c"
      using a cpos by (simp add: pos_less_divide_eq)
    show "real (Suc m) / real c \<le> real_of_int (int (m div c) + 1)"
      using b cpos by (simp add: pos_divide_le_eq)
  qed
  then show ?thesis using Suc assms by (simp add: plate_count_Suc)
qed

lemma length_plate_positions:
  assumes "0 < c" "j < plate_count c n"
  shows "length (plate_positions c n j) = plate_load c n j"
proof (cases n)
  case 0
  then show ?thesis using assms by (simp add: plate_count_def)
next
  case (Suc m)
  then have pc: "plate_count c n = Suc (m div c)" using assms(1) by (simp add: plate_count_Suc)
  show ?thesis
  proof (cases "j + 1 < plate_count c n")
    case True
    then have "j + 1 \<le> m div c" using pc by simp
    then have "(j + 1) * c \<le> m div c * c" by (intro mult_le_mono1)
    also have "\<dots> \<le> m" using div_facts(1)[OF assms(1)] .
    finally have "(j + 1) * c \<le> n" using Suc by simp
    then show ?thesis using True by (simp add: plate_positions_full plate_load_def)
  next
    case False
    then have j: "j = m div c" using pc assms(2) by simp
    have "n \<le> (j + 1) * c" using div_facts(2)[OF assms(1), of m] Suc j by simp
    then show ?thesis using False by (simp add: plate_positions_open plate_load_def)
  qed
qed

lemma tags_on_plate:
  "tags_on (plate_body args enc n j) = length (plate_positions (nat (tokens_per_plate args)) n j)"
  "tags_on (plate_colored args enc n j) = length (plate_positions (nat (tokens_per_plate args)) n j)"
  by (simp_all add: tags_on_def plate_body_def plate_colored_def operands_foldl)

lemma run_exports_summary:
  assumes "0 < tokens_per_plate args"
  shows "map (\<lambda>(name, s). (name, tags_on s)) (run_exports args enc) =
     concat (map (\<lambda>j. [ (body_file (int j + 1), plate_load (nat (tokens_per_plate args)) (tag_count args) j),
                         (colored_file (int j + 1), plate_load (nat (tokens_per_plate args)) (tag_count args) j) ])
               [0 ..< plate_count (nat (tokens_per_plate args)) (tag_count args)])"
proof -
  have C: "0 < nat (tokens_per_plate args)" using assms by simp
  have "map (\<lambda>j. map (\<lambda>(name, s). (name, tags_on s)) (plate_exports args enc (tag_count args) j))
          [0 ..< plate_count (nat (tokens_per_plate args)) (tag_count args)] =
        map (\<lambda>j. [ (body_file (int j + 1), plate_load (nat (tokens_per_plate args)) (tag_count args) j),
                         (colored_file (int j + 1), plate_load (nat (tokens_per_plate args)) (tag_count args) j) ])
          [0 ..< plate_count (nat (tokens_per_plate args)) (tag_count args)]"
    by (rule map_cong) (simp_all add: plate_exports_def tags_on_plate length_plate_positions[OF C])
  then have "concat (map (\<lambda>j. map (\<lambda>(name, s). (name, tags_on s)) (plate_exports args enc (tag_count args) j))
          [0 ..< plate_count (nat (tokens_per_plate args)) (tag_count args)]) =
        concat (map (\<lambda>j. [ (body_file (int j + 1), plate_load (nat (tokens_per_plate args)) (tag_count args) j),
                         (colored_file (int j + 1), plate_load (nat (tokens_per_plate args)) (tag_count args) j) ])
          [0 ..< plate_count (nat (tokens_per_plate args)) (tag_count args)])"
    by (rule arg_cong)
  then show ?thesis
    by (simp only: run_exports_def map_concat map_map comp_def)
qed

lemma digit_char_code: "d < 10 \<Longrightarrow> of_char (digit_char d) = (48::nat) + d"
proof -
  assume "d < 10"
  then consider "d = 0" | "d = 1" | "d = 2" | "d = 3" | "d = 4" | "d = 5" | "d = 6" | "d = 7"
    | "d = 8" | "d = 9"
    by (auto simp: numeral_eq_Suc less_Suc_eq)
  then show ?thesis by cases (simp_all add: digit_char_def)
qed

lemma digit_char_inj: "a < 10 \<Longrightarrow> b < 10 \<Longrightarrow> digit_char a = digit_char b \<Longrightarrow> a = b"
proof -
  assume a: "a < 10" and b: "b < 10" and e: "digit_char a = digit_char b"
  have "(48::nat) + a = of_char (digit_char a)" using a by (simp add: digit_char_code)
  also have "\<dots> = of_char (digit_char b)" using e by simp
  also have "\<dots> = 48 + b" using b by (simp add: digit_char_code)
  finally show "a = b" by simp
qed

lemma str_nat_nonempty: "str_nat n \<noteq> []"
  by (subst str_nat.simps) simp

lemma str_nat_inj: "str_nat n = str_nat m \<Longrightarrow> n = m"
proof (induction n arbitrary: m rule: str_nat.induct)
  case (1 n)
  show ?case
  proof (cases "n < 10")
    case True
    then have n: "str_nat n = [digit_char n]" by (subst str_nat.simps) simp
    show ?thesis
    proof (cases "m < 10")
      case mt: True
      then have "str_nat m = [digit_char m]" by (subst str_nat.simps) simp
      with n "1.prems" have "digit_char n = digit_char m" by simp
      then show ?thesis using True mt by (rule digit_char_inj[rotated 2])
    next
      case False
      then have "str_nat m = str_nat (m div 10) @ [digit_char (m mod 10)]"
        by (subst str_nat.simps) simp
      with n "1.prems" have "str_nat (m div 10) = []" by simp
      then show ?thesis using str_nat_nonempty by blast
    qed
  next
    case False
    then have n: "str_nat n = str_nat (n div 10) @ [digit_char (n mod 10)]"
      by (subst str_nat.simps) simp
    show ?thesis
    proof (cases "m < 10")
      case True
      then have "str_nat m = [digit_char m]" by (subst str_nat.simps) simp
      with n "1.prems" have "str_nat (n div 10) = []" by simp
      then show ?thesis using str_nat_nonempty by blast
    next
      case mf: False
      then have "str_nat m = str_nat (m div 10) @ [digit_char (m mod 10)]"
        by (subst str_nat.simps) simp
      with n "1.prems" have e: "str_nat (n div 10) = str_nat (m div 10)"
        and d: "digit_char (n mod 10) = digit_char (m mod 10)"
        by simp_all
      have "n div 10 = m div 10" using "1.IH"[OF False e] .
      moreover have "n mod 10 = m mod 10" using d by (intro digit_char_inj) simp_all
      ultimately show ?thesis by (metis div_mult_mod_eq)
    qed
  qed
qed

lemma str_int_inj: "0 \<le> a \<Longrightarrow> 0 \<le> b \<Longrightarrow> str_int a = str_int b \<Longrightarrow> a = b"
proof -
  assume a: "0 \<le> a" and b: "0 \<le> b" and e: "str_int a = str_int b"
  then have "str_nat (nat a) = str_nat (nat b)" by (simp add: str_int_def)
  then have "nat a = nat b" by (rule str_nat_inj)
  then show "a = b" using a b by simp
qed

lemma body_file_inj: "0 \<le> a \<Longrightarrow> 0 \<le> b \<Longrightarrow> body_file a = body_file b \<Longrightarrow> a = b"
  by (simp add: body_file_def str_int_inj)

lemma colored_file_inj: "0 \<le> a \<Longrightarrow> 0 \<le> b \<Longrightarrow> colored_file a = colored_file b \<Longrightarrow> a = b"
  by (simp add: colored_file_def str_int_inj)

lemma body_not_colored: "body_file a \<noteq> colored_file b"
  by (simp add: body_file_def colored_file_def)

lemma set_plate_names:
  "set (plate_names k) = (\<lambda>j. body_file (int j + 1)) ` {..<k} \<union> (\<lambda>j. colored_file (int j + 1)) ` {..<k}"
  by (induction k) (auto simp: plate_names_def lessThan_Suc)

lemma distinct_plate_names: "distinct (plate_names k)"
proof (induction k)
  case 0
  then show ?case by (simp add: plate_names_def)
next
  case (Suc k)
  have step: "plate_names (Suc k) = plate_names k @ [body_file (int k + 1), colored_file (int k + 1)]"
    by (simp add: plate_names_def)
  have nb: "body_file (int k + 1) \<notin> set (plate_names k)"
  proof
    assume "body_file (int k + 1) \<in> set (plate_names k)"
    then obtain j where j: "j < k" and "body_file (int k + 1) = body_file (int j + 1)
        \<or> body_file (int k + 1) = colored_file (int j + 1)"
      unfolding set_plate_names by auto
    then have "body_file (int k + 1) = body_file (int j + 1)" using body_not_colored by blast
    then have "int k + 1 = int j + 1" by (intro body_file_inj) simp_all
    then show False using j by simp
  qed
  have nc: "colored_file (int k + 1) \<notin> set (plate_names k)"
  proof
    assume "colored_file (int k + 1) \<in> set (plate_names k)"
    then obtain j where j: "j < k" and "colored_file (int k + 1) = body_file (int j + 1)
        \<or> colored_file (int k + 1) = colored_file (int j + 1)"
      unfolding set_plate_names by auto
    then have "colored_file (int k + 1) = colored_file (int j + 1)"
      using body_not_colored[of "int j + 1" "int k + 1"] by auto
    then have "int k + 1 = int j + 1" by (intro colored_file_inj) simp_all
    then show False using j by simp
  qed
  show ?case
    unfolding step using Suc nb nc body_not_colored[of "int k + 1" "int k + 1"] by simp
qed

lemma map_fst_run_exports:
  "map fst (run_exports args enc) =
     plate_names (plate_count (nat (tokens_per_plate args)) (tag_count args))"
  by (simp add: run_exports_def plate_names_def map_concat comp_def plate_exports_def)

text \<open>
  Claim C2. With plate capacity \<open>c \<ge> 1\<close> (and an encoder that returns no empty matrix
  for the tags of the run), a run over \<open>start_index \<le> end_index\<close>, \<open>n\<close> tags, ends without
  error and its export calls are exactly, in this order and for \<open>j = 0, \<dots>\<close> below the
  plate count \<open>\<lceil>n / c\<rceil>\<close>: the body of plate \<open>j\<close> as \<^verbatim>\<open>build_plate_body_<j+1>.stl\<close>, then its
  colored overlay as \<^verbatim>\<open>build_plate_colored_<j+1>.stl\<close>; each of the two scenes holds
  \<open>c\<close> tags, on the last plate \<open>n - j c\<close>; no two of the file names are equal. With
  \<open>end_index < start_index\<close> the run ends without error and without an export call.
\<close>

theorem batch_runner_exports:
  assumes cap: "1 \<le> tokens_per_plate args" and enc: "enc_ok enc args (tag_count args)"
  shows "(start_index args \<le> end_index args \<longrightarrow>
            (\<exists>w'. main args enc w0 = Inr w'
               \<and> exported w' = exported w0 @ run_exports args enc)
            \<and> map (\<lambda>(name, s). (name, tags_on s)) (run_exports args enc) =
                concat (map (\<lambda>j. [ (body_file (int j + 1),
                                      plate_load (nat (tokens_per_plate args)) (tag_count args) j),
                                    (colored_file (int j + 1),
                                      plate_load (nat (tokens_per_plate args)) (tag_count args) j) ])
                         [0 ..< plate_count (nat (tokens_per_plate args)) (tag_count args)])
            \<and> distinct (map fst (run_exports args enc))
            \<and> int (plate_count (nat (tokens_per_plate args)) (tag_count args)) =
                \<lceil>real (tag_count args) / real (nat (tokens_per_plate args))\<rceil>)
       \<and> (end_index args < start_index args \<longrightarrow>
            (\<exists>w'. main args enc w0 = Inr w' \<and> exported w' = exported w0))"
proof -
  have c: "0 < tokens_per_plate args" using cap by simp
  then have c0: "tokens_per_plate args \<noteq> 0" by simp
  have C: "0 < nat (tokens_per_plate args)" using c by simp
  have run: "start_index args \<le> end_index args \<Longrightarrow>
      \<exists>w'. main args enc w0 = Inr w' \<and> exported w' = exported w0 @ run_exports args enc"
    using main_runs[OF c _ enc, of w0]
    by (simp add: remove_scad_def after_exports_def prepare_output_directory_def)
  have empty: "end_index args < start_index args \<Longrightarrow>
      \<exists>w'. main args enc w0 = Inr w' \<and> exported w' = exported w0"
    using main_empty_range[OF _ capacity_nonzero(3,4)[OF c0], of enc w0] by simp
  have names: "distinct (map fst (run_exports args enc))"
    unfolding map_fst_run_exports by (rule distinct_plate_names)
  show ?thesis
    using run empty run_exports_summary[OF c, of enc] names
      plate_count_ceiling[OF C, of "tag_count args"]
    by blast
qed

text \<open>
  The scenario of the specification: capacity 6 (tokens of 100 by 80 on the 254 by 254
  plate), indices 1 to 13: three plates holding 6, 6 and 1 tags.
\<close>

theorem batch_runner_exports_witness:
  "1 \<le> tokens_per_plate (default_args\<lparr>token_width := 100, token_height := 80, end_index := 13\<rparr>)
   \<and> enc_ok (\<lambda>_. [[True]]) (default_args\<lparr>token_width := 100, token_height := 80, end_index := 13\<rparr>) 13
   \<and> tokens_per_plate (default_args\<lparr>token_width := 100, token_height := 80, end_index := 13\<rparr>) = 6
   \<and> (\<exists>w'. main (default_args\<lparr>token_width := 100, token_height := 80, end_index := 13\<rparr>)
              (\<lambda>_. [[True]]) \<lparr>files = [], exported = []\<rparr> = Inr w'
          \<and> map (\<lambda>(name, s). (name, tags_on s)) (exported w') =
             [ (''build_plate_body_1.stl'', 6), (''build_plate_colored_1.stl'', 6),
               (''build_plate_body_2.stl'', 6), (''build_plate_colored_2.stl'', 6),
               (''build_plate_body_3.stl'', 1), (''build_plate_colored_3.stl'', 1) ])"
proof -
  let ?a = "default_args\<lparr>token_width := 100, token_height := 80, end_index := 13\<rparr>"
  have c6: "tokens_per_plate ?a = 6"
    by (simp add: default_args_def tokens_per_plate_def num_per_row_def num_per_column_def
        py_int_def)
  have n: "tag_count ?a = 13" by (simp add: tag_count_def default_args_def)
  have cap: "1 \<le> tokens_per_plate ?a" using c6 by simp
  have enc: "enc_ok (\<lambda>_. [[True]]) ?a (tag_count ?a)" by (simp add: enc_ok_def)
  have pc: "plate_count 6 13 = 3" by (simp add: plate_count_def)
  have up: "[0..<3] = [0, 1, 2]" by (simp add: upt_rec)
  have names: "body_file 1 = ''build_plate_body_1.stl''" "body_file 2 = ''build_plate_body_2.stl''"
    "body_file 3 = ''build_plate_body_3.stl''" "colored_file 1 = ''build_plate_colored_1.stl''"
    "colored_file 2 = ''build_plate_colored_2.stl''" "colored_file 3 = ''build_plate_colored_3.stl''"
    by (simp_all add: body_file_def colored_file_def str_int_def str_nat.simps digit_char_def)
  have se: "start_index ?a \<le> end_index ?a" by (simp add: default_args_def)
  from batch_runner_exports[OF cap enc, of "\<lparr>files = [], exported = []\<rparr>"] se
  obtain w' where w': "main ?a (\<lambda>_. [[True]]) \<lparr>files = [], exported = []\<rparr> = Inr w'"
      "exported w' = run_exports ?a (\<lambda>_. [[True]])"
    and sm: "map (\<lambda>(name, s). (name, tags_on s)) (run_exports ?a (\<lambda>_. [[True]])) =
                concat (map (\<lambda>j. [ (body_file (int j + 1),
                                      plate_load (nat (tokens_per_plate ?a)) (tag_count ?a) j),
                                    (colored_file (int j + 1),
                                      plate_load (nat (tokens_per_plate ?a)) (tag_count ?a) j) ])
                         [0 ..< plate_count (nat (tokens_per_plate ?a)) (tag_count ?a)])"
    by auto
  have "map (\<lambda>(name, s). (name, tags_on s)) (exported w') =
             [ (''build_plate_body_1.stl'', 6), (''build_plate_colored_1.stl'', 6),
               (''build_plate_body_2.stl'', 6), (''build_plate_colored_2.stl'', 6),
               (''build_plate_body_3.stl'', 1), (''build_plate_colored_3.stl'', 1) ]"
    unfolding w'(2) sm by (simp add: c6 n pc up names plate_load_def)
  with w'(1) cap enc c6 n show ?thesis by auto
qed

lemma state_at_eq:
  assumes c: "0 < tokens_per_plate args" and e: "enc_ok enc args (Suc p)"
  shows "state_at args enc p = Inr (state_after args enc \<lparr>files = [], exported = []\<rparr> p)"
proof -
  have c0: "tokens_per_plate args \<noteq> 0" using c by simp
  have "nat (start_index args + int p - start_index args + 1) = Suc p" by simp
  then have "[start_index args .. start_index args + int p] = map (tag_index args) [0..<Suc p]"
    using upto_as_map[of "start_index args" "start_index args + int p"]
    by (simp only: tag_index_def[abs_def])
  then show ?thesis
    unfolding state_at_def using loop_prefix[OF c capacity_nonzero(1)[OF c0] e] by simp
qed

lemma state_after_plate:
  assumes c: "0 < tokens_per_plate args"
  shows "current_plate_index (state_after args enc w p) - 1 = int p div tokens_per_plate args"
proof -
  have "int (p div nat (tokens_per_plate args)) = int p div int (nat (tokens_per_plate args))"
    by (rule zdiv_int)
  then show ?thesis using c by (simp add: state_after_def Let_def)
qed

lemma position_index_at:
  "position_index args c (start_index args + int p) = int p mod c"
  by (simp add: position_index_def)


lemma assignment_eq:
  assumes c: "0 < tokens_per_plate args" and e: "enc_ok enc args (Suc p)"
  shows "assignment args enc p =
     Some (int p div tokens_per_plate args,
           (int p mod tokens_per_plate args) div num_per_row args,
           (int p mod tokens_per_plate args) mod num_per_row args)"
  by (simp add: assignment_def state_at_eq[OF c e] state_after_plate[OF c] position_index_at
      row_of_def col_of_def Let_def)

lemma py_int_floor: "0 \<le> x \<Longrightarrow> py_int x = \<lfloor>x\<rfloor>"
  by (simp add: py_int_def)

lemma config_ok_floor:
  assumes "plate_config_ok args"
  shows "num_per_row args = spec_tokens_per_row args"
    and "num_per_column args = spec_tokens_per_column args"
    and "tokens_per_plate args = spec_tokens_per_plate args"
    and "0 \<le> num_per_row args" and "0 \<le> num_per_column args"
proof -
  have w: "0 \<le> build_plate_width args / (token_width args + build_plate_spacing args)"
    and h: "0 \<le> build_plate_height args / (token_height args + build_plate_spacing args)"
    using assms by (simp_all add: plate_config_ok_def)
  show r: "num_per_row args = spec_tokens_per_row args"
    by (simp add: num_per_row_def spec_tokens_per_row_def py_int_floor[OF w])
  show cl: "num_per_column args = spec_tokens_per_column args"
    by (simp add: num_per_column_def spec_tokens_per_column_def py_int_floor[OF h])
  show "tokens_per_plate args = spec_tokens_per_plate args"
    by (simp add: tokens_per_plate_def spec_tokens_per_plate_def r cl)
  show "0 \<le> num_per_row args" using w by (simp add: r spec_tokens_per_row_def)
  show "0 \<le> num_per_column args" using h by (simp add: cl spec_tokens_per_column_def)
qed

lemma slot_bound:
  fixes r t a b :: int
  assumes "0 < r" "0 \<le> a" "a < t" "0 \<le> b" "b < r"
  shows "0 \<le> a * r + b" and "a * r + b < r * t"
proof -
  show "0 \<le> a * r + b" using assms by simp
  have "a + 1 \<le> t" using assms by simp
  then have "(a + 1) * r \<le> t * r" using assms(1) by (intro mult_right_mono) simp_all
  then show "a * r + b < r * t" using assms(5) by (simp add: algebra_simps)
qed

lemma slot_div_mod:
  fixes r t a b k :: int
  assumes r: "0 < r" and a: "0 \<le> a" "a < t" and b: "0 \<le> b" "b < r"
  shows "(k * (r * t) + a * r + b) div (r * t) = k"
    and "((k * (r * t) + a * r + b) mod (r * t)) div r = a"
    and "((k * (r * t) + a * r + b) mod (r * t)) mod r = b"
proof -
  note B = slot_bound[OF r a b]
  have c: "0 < r * t" using B by linarith
  have d: "(a * r + b) div (r * t) = 0" using B by (simp add: div_pos_pos_trivial)
  have m: "(a * r + b) mod (r * t) = a * r + b" using B by (simp add: mod_pos_pos_trivial)
  have nz: "r * t \<noteq> 0" using c by linarith
  have e: "k * (r * t) + a * r + b = (a * r + b) + k * (r * t)" by simp
  show "(k * (r * t) + a * r + b) div (r * t) = k"
    unfolding e div_mult_self1[OF nz] d by simp
  have mm: "(k * (r * t) + a * r + b) mod (r * t) = a * r + b"
    unfolding e mod_mult_self1 m by simp
  have "(a * r + b) div r = a" using r b by (simp add: div_pos_pos_trivial)
  then show "((k * (r * t) + a * r + b) mod (r * t)) div r = a" using mm by simp
  have "(a * r + b) mod r = b" using r b by (simp add: mod_pos_pos_trivial)
  then show "((k * (r * t) + a * r + b) mod (r * t)) mod r = b" using mm by simp
qed

lemma slot_rebuild:
  fixes r c x :: int
  shows "x = (x div c) * c + ((x mod c) div r) * r + (x mod c) mod r"
  by (simp add: add.assoc)

lemma slot_range:
  fixes r t x :: int
  assumes "0 < r" "0 < t"
  shows "0 \<le> (x mod (r * t)) div r" and "(x mod (r * t)) div r < t"
    and "0 \<le> (x mod (r * t)) mod r" and "(x mod (r * t)) mod r < r"
proof -
  have c: "0 < r * t" using assms by simp
  have m: "0 \<le> x mod (r * t)" "x mod (r * t) < r * t" using c by simp_all
  show "0 \<le> (x mod (r * t)) div r" using m(1) assms(1) by (simp add: pos_imp_zdiv_nonneg_iff)
  show "(x mod (r * t)) div r < t"
  proof (rule ccontr)
    assume "\<not> (x mod (r * t)) div r < t"
    then have "t \<le> (x mod (r * t)) div r" by simp
    then have "t * r \<le> (x mod (r * t)) div r * r" using assms(1) by (intro mult_right_mono) simp_all
    moreover have "(x mod (r * t)) div r * r + (x mod (r * t)) mod r = x mod (r * t)" by simp
    moreover have "0 \<le> (x mod (r * t)) mod r" using assms(1) by simp
    ultimately have "t * r \<le> x mod (r * t)" by linarith
    then show False using m(2) by (simp add: mult.commute)
  qed
  show "0 \<le> (x mod (r * t)) mod r" "(x mod (r * t)) mod r < r" using assms(1) by simp_all
qed

lemma config_positive:
  assumes ok: "plate_config_ok args" and cap: "1 \<le> spec_tokens_per_plate args"
  shows "0 < num_per_row args" and "0 < num_per_column args" and "0 < tokens_per_plate args"
proof -
  note F = config_ok_floor[OF ok]
  have c: "0 < num_per_row args * num_per_column args"
    using cap F(3) by (simp add: tokens_per_plate_def)
  show r: "0 < num_per_row args"
    using c F(4,5) by (metis less_le mult_zero_left)
  show "0 < num_per_column args"
    using c F(4,5) by (metis less_le mult_zero_right)
  show "0 < tokens_per_plate args" using c by (simp add: tokens_per_plate_def)
qed



text \<open>
  Python's \<^verbatim>\<open>int\<close> truncates towards zero, so it is \<open>floor\<close> on the quotients of positive
  lengths only.
\<close>

lemma py_int_negative: "py_int (- 9 / 2) = - 4 \<and> \<lfloor>- 9 / 2 :: real\<rfloor> = - 5"
  by (simp add: py_int_def)



lemma enc_total_ok: "enc_total enc \<Longrightarrow> enc_ok enc args n"
  by (simp add: enc_total_def enc_ok_def)

lemma triple_inj:
  fixes c r :: int and p q :: nat
  assumes "int p div c = int q div c"
    and "(int p mod c) div r = (int q mod c) div r"
    and "(int p mod c) mod r = (int q mod c) mod r"
  shows "p = q"
proof -
  have "int p = (int p div c) * c + ((int p mod c) div r) * r + (int p mod c) mod r"
    by (rule slot_rebuild)
  also have "\<dots> = (int q div c) * c + ((int q mod c) div r) * r + (int q mod c) mod r"
    using assms by simp
  also have "\<dots> = int q" by (rule slot_rebuild[symmetric])
  finally show ?thesis by simp
qed

lemma plate_of_position:
  fixes C k p :: nat
  assumes "0 < C" "k * C \<le> p" "p < (k + 1) * C"
  shows "int p div int C = int k"
proof -
  have "p div C = k" using assms by (intro div_nat_eqI) (simp_all add: mult.commute)
  then show ?thesis by (simp add: zdiv_int[symmetric])
qed

text \<open>
  Claim C8. For a plate configuration (positive lengths) with capacity
  \<open>c = tokens_per_row * tokens_per_column \<ge> 1\<close>, the map from sequence positions to
  \<open>(plate_index, row, column)\<close> is injective (distinct positions never share a triple); on
  the positions of any one plate \<open>k\<close> it is a bijection onto
  \<open>{k} \<times> {0..tokens_per_column-1} \<times> {0..tokens_per_row-1}\<close>; position \<open>c - 1\<close> is the last
  slot \<open>(tokens_per_column - 1, tokens_per_row - 1)\<close> of plate 0 and position \<open>c\<close> is slot
  \<open>(0, 0)\<close> of plate 1.
\<close>

theorem assignment_bijective:
  assumes ok: "plate_config_ok args" and cap: "1 \<le> spec_tokens_per_plate args"
    and enc: "enc_total enc"
  shows "inj (assignment args enc)
     \<and> (\<forall>k. bij_betw (\<lambda>p. the (assignment args enc p))
               {k * nat (spec_tokens_per_plate args) ..< (k + 1) * nat (spec_tokens_per_plate args)}
               ({int k} \<times> {0 ..< spec_tokens_per_column args} \<times> {0 ..< spec_tokens_per_row args}))
     \<and> assignment args enc (nat (spec_tokens_per_plate args) - 1) =
         Some (0, spec_tokens_per_column args - 1, spec_tokens_per_row args - 1)
     \<and> assignment args enc (nat (spec_tokens_per_plate args)) = Some (1, 0, 0)"
proof -
  note F = config_ok_floor[OF ok]
  note P = config_positive[OF ok cap]
  define c r t where "c = spec_tokens_per_plate args" and "r = spec_tokens_per_row args"
    and "t = spec_tokens_per_column args"
  have r: "0 < r" and t: "0 < t" and c: "0 < c" and crt: "c = r * t"
    using P F by (simp_all add: c_def r_def t_def spec_tokens_per_plate_def)
  define f where "f p = (int p div c, (int p mod c) div r, (int p mod c) mod r)" for p :: nat
  have asg: "assignment args enc p = Some (f p)" for p
    using assignment_eq[OF P(3) enc_total_ok[OF enc], of p] F(1,3)
    by (simp add: f_def c_def r_def)
  have finj: "f p = f q \<Longrightarrow> p = q" for p q
    unfolding f_def by (rule triple_inj[of p c q r]) simp_all
  have inj: "inj (assignment args enc)"
    by (rule injI) (simp add: asg finj)
  have C: "0 < nat c" "int (nat c) = c" using c by simp_all
  have bij: "bij_betw (\<lambda>p. the (assignment args enc p)) {k * nat c ..< (k + 1) * nat c}
      ({int k} \<times> {0 ..< t} \<times> {0 ..< r})" for k
  proof -
    have inj_on: "inj_on f {k * nat c ..< (k + 1) * nat c}"
      by (rule inj_onI) (rule finj)
    have sub: "f ` {k * nat c ..< (k + 1) * nat c} \<subseteq> {int k} \<times> {0 ..< t} \<times> {0 ..< r}"
    proof
      fix y assume "y \<in> f ` {k * nat c ..< (k + 1) * nat c}"
      then obtain p where p: "k * nat c \<le> p" "p < (k + 1) * nat c" and y: "y = f p" by auto
      have "int p div c = int k" using plate_of_position[OF C(1) p] C(2) by simp
      then show "y \<in> {int k} \<times> {0 ..< t} \<times> {0 ..< r}"
        using slot_range[OF r t, of "int p"] by (simp add: y f_def crt)
    qed
    have sup: "{int k} \<times> {0 ..< t} \<times> {0 ..< r} \<subseteq> f ` {k * nat c ..< (k + 1) * nat c}"
    proof
      fix y assume "y \<in> {int k} \<times> {0 ..< t} \<times> {0 ..< r}"
      then obtain a b where y: "y = (int k, a, b)" and a: "0 \<le> a" "a < t" and b: "0 \<le> b" "b < r"
        by auto
      define p where "p = nat (int k * (r * t) + a * r + b)"
      note B = slot_bound[OF r a b]
      have "0 \<le> int k * (r * t)" using r t by simp
      then have "0 \<le> int k * (r * t) + a * r + b" using B(1) by linarith
      then have ip: "int p = int k * (r * t) + a * r + b" by (simp add: p_def)
      have fp: "f p = y"
        unfolding f_def ip crt y using slot_div_mod[OF r a b, of "int k"] by simp
      have "int k * c \<le> int p" "int p < (int k + 1) * c"
        using B by (simp_all add: ip crt algebra_simps)
      then have "int (k * nat c) \<le> int p" "int p < int ((k + 1) * nat c)"
        using c by (simp_all add: algebra_simps)
      then have "k * nat c \<le> p" "p < (k + 1) * nat c" by (simp_all only: of_nat_le_iff of_nat_less_iff)
      then show "y \<in> f ` {k * nat c ..< (k + 1) * nat c}" using fp by force
    qed
    have "bij_betw f {k * nat c ..< (k + 1) * nat c} ({int k} \<times> {0 ..< t} \<times> {0 ..< r})"
      unfolding bij_betw_def using inj_on sub sup by blast
    then show ?thesis by (simp add: asg[abs_def] f_def[abs_def])
  qed
  have last: "assignment args enc (nat c - 1) = Some (0, t - 1, r - 1)"
  proof -
    have "int (nat c - 1) = 0 * (r * t) + (t - 1) * r + (r - 1)"
      using c by (simp add: crt algebra_simps)
    then show ?thesis
      unfolding asg f_def crt using slot_div_mod[of r "t - 1" t "r - 1" 0] r t by simp
  qed
  have first: "assignment args enc (nat c) = Some (1, 0, 0)"
  proof -
    have "int (nat c) = 1 * (r * t) + 0 * r + 0" using c by (simp add: crt)
    then show ?thesis
      unfolding asg f_def crt using slot_div_mod[of r 0 t 0 1] r t by simp
  qed
  show ?thesis using inj bij last first unfolding c_def r_def t_def by blast
qed

theorem assignment_bijective_witness:
  "plate_config_ok default_args \<and> 1 \<le> spec_tokens_per_plate default_args
   \<and> enc_total (\<lambda>_. [[True]])
   \<and> spec_tokens_per_row default_args = 4 \<and> spec_tokens_per_column default_args = 4
   \<and> inj (assignment default_args (\<lambda>_. [[True]]))
   \<and> bij_betw (\<lambda>p. the (assignment default_args (\<lambda>_. [[True]]) p)) {16 ..< 32}
         ({1} \<times> {0 ..< 4} \<times> {0 ..< 4})
   \<and> assignment default_args (\<lambda>_. [[True]]) 15 = Some (0, 3, 3)
   \<and> assignment default_args (\<lambda>_. [[True]]) 16 = Some (1, 0, 0)"
proof -
  have ok: "plate_config_ok default_args" by (simp add: plate_config_ok_def default_args_def)
  have r: "spec_tokens_per_row default_args = 4"
    by (simp add: spec_tokens_per_row_def default_args_def)
  have t: "spec_tokens_per_column default_args = 4"
    by (simp add: spec_tokens_per_column_def default_args_def)
  have c: "spec_tokens_per_plate default_args = 16"
    by (simp add: spec_tokens_per_plate_def r t)
  have cap: "1 \<le> spec_tokens_per_plate default_args" using c by simp
  have enc: "enc_total (\<lambda>_. [[True]])" by (simp add: enc_total_def)
  note T = assignment_bijective[OF ok cap enc, unfolded r t c]
  from T have "bij_betw (\<lambda>p. the (assignment default_args (\<lambda>_. [[True]]) p))
      {1 * nat 16 ..< (1 + 1) * nat 16} ({int 1} \<times> {0 ..< 4} \<times> {0 ..< 4})"
    by blast
  then have b: "bij_betw (\<lambda>p. the (assignment default_args (\<lambda>_. [[True]]) p)) {16 ..< 32}
         ({1} \<times> {0 ..< 4} \<times> {0 ..< 4})"
    by simp
  from T have "assignment default_args (\<lambda>_. [[True]]) (nat 16 - 1) = Some (0, 4 - 1, 4 - 1)"
    and "assignment default_args (\<lambda>_. [[True]]) (nat 16) = Some (1, 0, 0)"
    and "inj (assignment default_args (\<lambda>_. [[True]]))"
    by blast+
  then show ?thesis using ok cap enc r t b by simp
qed

subsection \<open>Geometry: overlays, hole, body, QR relief\<close>







text \<open>
  Claim C5, as stated, fails. For the default tag (50 by 60 by 3, hole radius 3, hole
  offset 3) the claim puts the axis of the hole at distance 3 from the edges \<open>x = 50\<close>
  and \<open>y = 60\<close>, through (47, 57), and its bottom below \<open>z = 0\<close>. In the program the point
  (47, 57) is not in the hole at all: the hole is the disc of radius 3 around (44, 52),
  6 from one edge and 8 from the other, and no point of it lies below \<open>z = 0\<close> (the last
  step of the construction, \<^verbatim>\<open>.back(-1)\<close>, moves it along \<open>y\<close>, not along \<open>z\<close>).
\<close>

theorem hole_axis_and_base_counterexample:
  "(47, 57, 1) \<notin> pts (\<lambda>_ _ _ _ _. {}) (keychain_hole 50 60 3 3 3)
   \<and> (44, 52, 1) \<in> pts (\<lambda>_ _ _ _ _. {}) (keychain_hole 50 60 3 3 3)
   \<and> (41, 52, 1) \<in> pts (\<lambda>_ _ _ _ _. {}) (keychain_hole 50 60 3 3 3)
   \<and> (47, 52, 1) \<in> pts (\<lambda>_ _ _ _ _. {}) (keychain_hole 50 60 3 3 3)
   \<and> (44, 49, 1) \<in> pts (\<lambda>_ _ _ _ _. {}) (keychain_hole 50 60 3 3 3)
   \<and> (44, 55, 1) \<in> pts (\<lambda>_ _ _ _ _. {}) (keychain_hole 50 60 3 3 3)
   \<and> \<not> (\<exists>x y z. (x, y, z) \<in> pts (\<lambda>_ _ _ _ _. {}) (keychain_hole 50 60 3 3 3) \<and> z < 0)"
  by (simp add: pts_keychain_hole)

text \<open>
  Claim C5, amended. The subtracted hole is an upright cylinder of radius \<open>hole_radius\<close>
  and height \<open>depth + 2\<close> whose axis has \<open>x = width - hole_offset - hole_radius\<close>: along
  \<open>x\<close> it is the rim of the hole, not its axis, that is at distance \<open>hole_offset\<close> from
  the edge \<open>x = width\<close>. (Where the axis is along \<open>y\<close> and where the cylinder starts along
  \<open>z\<close> is left open here.)
\<close>

theorem hole_cylinder:
  assumes "0 < hr"
  shows "\<exists>cy z0. pts g (keychain_hole w h d hr ho) =
     {(x, y, z). (x - (w - ho - hr))\<^sup>2 + (y - cy)\<^sup>2 \<le> hr\<^sup>2 \<and> z0 \<le> z \<and> z \<le> z0 + (d + 2)}"
proof (intro exI)
  show "pts g (keychain_hole w h d hr ho) =
     {(x, y, z). (x - (w - ho - hr))\<^sup>2 + (y - (h - ho - hr * 2 + 1))\<^sup>2 \<le> hr\<^sup>2
        \<and> 0 \<le> z \<and> z \<le> 0 + (d + 2)}"
    using assms by (simp add: pts_keychain_hole)
qed

theorem hole_cylinder_witness:
  "(0::real) < 3 \<and> (\<exists>cy z0. pts (\<lambda>_ _ _ _ _. {}) (keychain_hole 50 60 3 3 3) =
     {(x, y, z). (x - 44)\<^sup>2 + (y - cy)\<^sup>2 \<le> 3\<^sup>2 \<and> z0 \<le> z \<and> z \<le> z0 + 5})"
  using hole_cylinder[of 3 "\<lambda>_ _ _ _ _. {}" 50 60 3 3] by simp

lemma pts_cylinder_at:
  "0 \<le> r \<Longrightarrow> pts g (forward cy (right cx (Cylinder r d))) = upright_cylinder cx cy r d"
proof (rule set_eqI)
  fix p :: point
  assume r: "0 \<le> r"
  obtain x y z where p: "p = (x, y, z)" by (cases p) auto
  show "p \<in> pts g (forward cy (right cx (Cylinder r d))) \<longleftrightarrow> p \<in> upright_cylinder cx cy r d"
    unfolding p using r by (simp add: forward_def right_def mem_shift upright_cylinder_def)
qed

lemma pts_main_core:
  "pts g (main_core w h d r) = prism r r 0 (w - 2 * r) (h - 2 * r) d"
proof (rule set_eqI)
  fix p :: point
  obtain x y z where p: "p = (x, y, z)" by (cases p) auto
  show "p \<in> pts g (main_core w h d r) \<longleftrightarrow> p \<in> prism r r 0 (w - 2 * r) (h - 2 * r) d"
    unfolding p by (auto simp: main_core_def forward_def right_def mem_shift prism_def)
qed

lemma pts_combined_shape:
  assumes "0 \<le> r"
  shows "pts g (combined_shape w h d r) =
     prism r r 0 (w - 2 * r) (h - 2 * r) d
     \<union> convex_hull (upright_cylinder r r r d \<union> upright_cylinder (w - r) r r d)
     \<union> convex_hull (upright_cylinder (w - r) r r d \<union> upright_cylinder (w - r) (h - r) r d)
     \<union> convex_hull (upright_cylinder (w - r) (h - r) r d \<union> upright_cylinder r (h - r) r d)
     \<union> convex_hull (upright_cylinder r (h - r) r d \<union> upright_cylinder r r r d)"
  by (simp add: combined_shape_def rounded_edges_def corners_def Let_def pts_main_core
      pts_cylinder_at[OF assms])

lemma lerp_between:
  fixes a b lo hi t :: real
  assumes "lo \<le> a" "a \<le> hi" "lo \<le> b" "b \<le> hi" "0 \<le> t" "t \<le> 1"
  shows "lo \<le> (1 - t) * a + t * b" and "(1 - t) * a + t * b \<le> hi"
proof -
  have t1: "0 \<le> 1 - t" using assms by simp
  have "(1 - t) * lo \<le> (1 - t) * a" "t * lo \<le> t * b"
    using assms t1 by (simp_all add: mult_left_mono)
  then have "(1 - t) * lo + t * lo \<le> (1 - t) * a + t * b" by linarith
  then show "lo \<le> (1 - t) * a + t * b" by (simp add: algebra_simps)
  have "(1 - t) * a \<le> (1 - t) * hi" "t * b \<le> t * hi"
    using assms t1 by (simp_all add: mult_left_mono)
  then have "(1 - t) * a + t * b \<le> (1 - t) * hi + t * hi" by linarith
  then show "(1 - t) * a + t * b \<le> hi" by (simp add: algebra_simps)
qed

lemma prism_convex:
  assumes "p \<in> prism x0 y0 z0 sx sy sz" "q \<in> prism x0 y0 z0 sx sy sz" "0 \<le> t" "t \<le> 1"
  shows "lerp t p q \<in> prism x0 y0 z0 sx sy sz"
proof -
  obtain a b c where p: "p = (a, b, c)" by (cases p) auto
  obtain a' b' c' where q: "q = (a', b', c')" by (cases q) auto
  from assms have P: "x0 \<le> a" "a \<le> x0 + sx" "y0 \<le> b" "b \<le> y0 + sy" "z0 \<le> c" "c \<le> z0 + sz"
    and Q: "x0 \<le> a'" "a' \<le> x0 + sx" "y0 \<le> b'" "b' \<le> y0 + sy" "z0 \<le> c'" "c' \<le> z0 + sz"
    by (simp_all add: p q prism_def)
  note T = assms(3,4)
  show ?thesis
    unfolding p q
    using lerp_between[OF P(1,2) Q(1,2) T] lerp_between[OF P(3,4) Q(3,4) T]
      lerp_between[OF P(5,6) Q(5,6) T]
    by (simp add: prism_def lerp_def)
qed

lemma convex_hull_in_prism:
  assumes "S \<subseteq> prism x0 y0 z0 sx sy sz"
  shows "convex_hull S \<subseteq> prism x0 y0 z0 sx sy sz"
proof
  fix p assume "p \<in> convex_hull S"
  then show "p \<in> prism x0 y0 z0 sx sy sz"
  proof (induction rule: convex_hull.induct)
    case (base p)
    then show ?case using assms by blast
  next
    case (mix p q t)
    then show ?case by (simp add: prism_convex)
  qed
qed

lemma disc_bound:
  fixes a b r :: real
  assumes "a\<^sup>2 + b\<^sup>2 \<le> r\<^sup>2" "0 \<le> r"
  shows "- r \<le> a" "a \<le> r" "- r \<le> b" "b \<le> r"
proof -
  have "a\<^sup>2 \<le> r\<^sup>2" "b\<^sup>2 \<le> r\<^sup>2"
    using assms(1) zero_le_power2[of a] zero_le_power2[of b] by linarith+
  then have "\<bar>a\<bar> \<le> r" "\<bar>b\<bar> \<le> r"
    using assms(2) by (simp_all add: power2_le_iff_abs_le)
  then show "- r \<le> a" "a \<le> r" "- r \<le> b" "b \<le> r" by linarith+
qed

lemma cylinder_in_prism:
  assumes "0 \<le> r" "r \<le> cx" "cx + r \<le> w" "r \<le> cy" "cy + r \<le> h"
  shows "upright_cylinder cx cy r d \<subseteq> prism 0 0 0 w h d"
proof
  fix p assume p: "p \<in> upright_cylinder cx cy r d"
  obtain x y z where xyz: "p = (x, y, z)" by (cases p) auto
  from p have c: "(x - cx)\<^sup>2 + (y - cy)\<^sup>2 \<le> r\<^sup>2" and z: "0 \<le> z" "z \<le> d"
    by (simp_all add: xyz upright_cylinder_def)
  note B = disc_bound[OF c assms(1)]
  show "p \<in> prism 0 0 0 w h d"
    using B z assms by (simp add: xyz prism_def)
qed

lemma in_upright_cylinder:
  "(x, y, z) \<in> upright_cylinder cx cy r d \<longleftrightarrow> (x - cx)\<^sup>2 + (y - cy)\<^sup>2 \<le> r\<^sup>2 \<and> 0 \<le> z \<and> z \<le> d"
  by (simp add: upright_cylinder_def)

lemma hull_left: "p \<in> A \<Longrightarrow> p \<in> convex_hull (A \<union> B)"
  by (rule convex_hull.base) simp

lemma hull_right: "p \<in> B \<Longrightarrow> p \<in> convex_hull (A \<union> B)"
  by (rule convex_hull.base) simp

text \<open>
  Claim C9. For positive \<open>width\<close>, \<open>height\<close>, \<open>depth\<close> and \<open>0 < corner_radius < min width
  height / 2\<close>, the body that \<^verbatim>\<open>create_keychain_body\<close> builds before it subtracts the hole
  (\<open>combined_shape\<close>) is the union of the core prism of sizes \<open>(width - 2r, height - 2r,
  depth)\<close> at \<open>(r, r, 0)\<close> with the convex hulls of the four pairs of cyclically adjacent
  corner cylinders of radius \<open>r\<close> around the inset corners; its bounding box is
  \<open>(0, 0, 0)\<close> to \<open>(width, height, depth)\<close>; and the core prism is a proper subset of it.
\<close>

theorem rounded_body_geometry:
  assumes w: "0 < w" and h: "0 < h" and d: "0 < d" and r: "0 < r" and rr: "r < min w h / 2"
  shows "(\<exists>hole. create_keychain_body w h d r hr ho =
                  Inr (Color ''white'' (Minus (combined_shape w h d r) hole)))
     \<and> pts g (combined_shape w h d r) =
         prism r r 0 (w - 2 * r) (h - 2 * r) d
         \<union> convex_hull (upright_cylinder r r r d \<union> upright_cylinder (w - r) r r d)
         \<union> convex_hull (upright_cylinder (w - r) r r d \<union> upright_cylinder (w - r) (h - r) r d)
         \<union> convex_hull (upright_cylinder (w - r) (h - r) r d \<union> upright_cylinder r (h - r) r d)
         \<union> convex_hull (upright_cylinder r (h - r) r d \<union> upright_cylinder r r r d)
     \<and> bounding_box (pts g (combined_shape w h d r)) (0, 0, 0) (w, h, d)
     \<and> pts g (main_core w h d r) = prism r r 0 (w - 2 * r) (h - 2 * r) d
     \<and> pts g (main_core w h d r) \<subset> pts g (combined_shape w h d r)"
proof -
  let ?B = "pts g (combined_shape w h d r)"
  have r0: "0 \<le> r" using r by simp
  have rw: "2 * r < w" and rh: "2 * r < h" using rr by simp_all
  note eq = pts_combined_shape[OF r0, of g w h d]
  have c0: "upright_cylinder r r r d \<subseteq> prism 0 0 0 w h d"
    and c1: "upright_cylinder (w - r) r r d \<subseteq> prism 0 0 0 w h d"
    and c2: "upright_cylinder (w - r) (h - r) r d \<subseteq> prism 0 0 0 w h d"
    and c3: "upright_cylinder r (h - r) r d \<subseteq> prism 0 0 0 w h d"
    using r0 rw rh by (intro cylinder_in_prism; simp)+
  have core: "prism r r 0 (w - 2 * r) (h - 2 * r) d \<subseteq> prism 0 0 0 w h d"
    using r0 by (auto simp: prism_def)
  have inside: "?B \<subseteq> prism 0 0 0 w h d"
    unfolding eq using core c0 c1 c2 c3
    by (intro Un_least convex_hull_in_prism) simp_all
  have p1: "(0, r, 0) \<in> ?B" unfolding eq using d
    by (intro UnI1 UnI2 hull_left) (simp add: in_upright_cylinder)
  have p2: "(w, r, 0) \<in> ?B" unfolding eq using d
    by (intro UnI1 UnI2 hull_right) (simp add: in_upright_cylinder)
  have p3: "(r, 0, 0) \<in> ?B" unfolding eq using d
    by (intro UnI1 UnI2 hull_left) (simp add: in_upright_cylinder)
  have p4: "(r, h, d) \<in> ?B" unfolding eq using d
    by (intro UnI2 hull_left) (simp add: in_upright_cylinder)
  have bb: "bounding_box ?B (0, 0, 0) (w, h, d)"
    unfolding bounding_box_def
  proof (intro conjI ballI)
    fix p assume "p \<in> ?B"
    then have p: "p \<in> prism 0 0 0 w h d" using inside by blast
    obtain x y z where xyz: "p = (x, y, z)" by (cases p) auto
    from p show "px (0, 0, 0) \<le> px p" "px p \<le> px (w, h, d)" "py (0, 0, 0) \<le> py p"
      "py p \<le> py (w, h, d)" "pz (0, 0, 0) \<le> pz p" "pz p \<le> pz (w, h, d)"
      by (simp_all add: xyz prism_def px_def py_def pz_def)
  next
    show "\<exists>p\<in>?B. px p = px (0, 0, 0)" using p1 by (intro bexI[of _ "(0, r, 0)"]) (simp_all add: px_def)
    show "\<exists>p\<in>?B. px p = px (w, h, d)" using p2 by (intro bexI[of _ "(w, r, 0)"]) (simp_all add: px_def)
    show "\<exists>p\<in>?B. py p = py (0, 0, 0)" using p3 by (intro bexI[of _ "(r, 0, 0)"]) (simp_all add: py_def)
    show "\<exists>p\<in>?B. py p = py (w, h, d)" using p4 by (intro bexI[of _ "(r, h, d)"]) (simp_all add: py_def)
    show "\<exists>p\<in>?B. pz p = pz (0, 0, 0)" using p1 by (intro bexI[of _ "(0, r, 0)"]) (simp_all add: pz_def)
    show "\<exists>p\<in>?B. pz p = pz (w, h, d)" using p4 by (intro bexI[of _ "(r, h, d)"]) (simp_all add: pz_def)
  qed
  have sub: "prism r r 0 (w - 2 * r) (h - 2 * r) d \<subseteq> ?B" unfolding eq by blast
  have out: "(0, r, 0) \<notin> prism r r 0 (w - 2 * r) (h - 2 * r) d" using r by (simp add: prism_def)
  have strict: "pts g (main_core w h d r) \<subset> ?B"
    unfolding pts_main_core using sub out p1 by blast
  have ret: "\<exists>hole. create_keychain_body w h d r hr ho =
                  Inr (Color ''white'' (Minus (combined_shape w h d r) hole))"
    by (simp add: create_keychain_body_def)
  show ?thesis using ret eq bb pts_main_core[of g w h d r] strict by blast
qed

theorem rounded_body_geometry_witness:
  "bounding_box (pts (\<lambda>_ _ _ _ _. {}) (combined_shape 50 60 3 4)) (0, 0, 0) (50, 60, 3)
   \<and> pts (\<lambda>_ _ _ _ _. {}) (main_core 50 60 3 4) = prism 4 4 0 42 52 3
   \<and> pts (\<lambda>_ _ _ _ _. {}) (main_core 50 60 3 4) \<subset> pts (\<lambda>_ _ _ _ _. {}) (combined_shape 50 60 3 4)"
proof -
  have "(0::real) < 50" "(0::real) < 60" "(0::real) < 3" "(0::real) < 4" "(4::real) < min 50 60 / 2"
    by simp_all
  note T = rounded_body_geometry[OF this, of 3 3 "\<lambda>_ _ _ _ _. {}"]
  have e: "(50::real) - 2 * 4 = 42" "(60::real) - 2 * 4 = 52" by simp_all
  from T[unfolded e] show ?thesis by blast
qed

lemma pts_pixel:
  "pts g (forward (real y * ps) (right (real x * ps) (Cube ps ps d))) = cell_prism ps d y x"
proof (rule set_eqI)
  fix p :: point
  obtain a b c where p: "p = (a, b, c)" by (cases p) auto
  show "p \<in> pts g (forward (real y * ps) (right (real x * ps) (Cube ps ps d))) \<longleftrightarrow>
      p \<in> cell_prism ps d y x"
    unfolding p by (auto simp: forward_def right_def mem_shift cell_prism_def prism_def)
qed

lemma pts_qr_row_loop:
  "pts g (qr_row_loop ps d y x row model) =
     pts g model \<union> {p. \<exists>j. j < length row \<and> row ! j \<and> p \<in> cell_prism ps d y (x + j)}"
proof (induction row arbitrary: x model)
  case Nil
  then show ?case by simp
next
  case (Cons cell row)
  have split: "{p. \<exists>j. j < length (cell # row) \<and> (cell # row) ! j \<and> p \<in> cell_prism ps d y (x + j)} =
      (if cell then cell_prism ps d y x else {})
      \<union> {p. \<exists>j. j < length row \<and> row ! j \<and> p \<in> cell_prism ps d y (Suc x + j)}"
    (is "?L = ?R")
  proof (rule set_eqI)
    fix p
    show "p \<in> ?L \<longleftrightarrow> p \<in> ?R"
    proof
      assume "p \<in> ?L"
      then obtain j where j: "j < length (cell # row)" "(cell # row) ! j" "p \<in> cell_prism ps d y (x + j)"
        by blast
      show "p \<in> ?R"
      proof (cases j)
        case 0
        then show ?thesis using j by simp
      next
        case (Suc k)
        then have "k < length row" "row ! k" "p \<in> cell_prism ps d y (Suc x + k)" using j by simp_all
        then show ?thesis by blast
      qed
    next
      assume "p \<in> ?R"
      then consider "cell" "p \<in> cell_prism ps d y x"
        | k where "k < length row" "row ! k" "p \<in> cell_prism ps d y (Suc x + k)"
        by (auto split: if_splits)
      then show "p \<in> ?L"
      proof cases
        case 1
        then have "0 < length (cell # row) \<and> (cell # row) ! 0 \<and> p \<in> cell_prism ps d y (x + 0)" by simp
        then show ?thesis by blast
      next
        case 2
        then have "Suc k < length (cell # row) \<and> (cell # row) ! Suc k \<and> p \<in> cell_prism ps d y (x + Suc k)"
          by simp
        then show ?thesis by blast
      qed
    qed
  qed
  show ?case
    unfolding split qr_row_loop.simps Cons.IH
    by (auto simp: pts_pixel)
qed

lemma pts_qr_matrix_loop:
  "pts g (qr_matrix_loop ps d y rows model) =
     pts g model \<union> {p. \<exists>i j. i < length rows \<and> j < length (rows ! i) \<and> rows ! i ! j
                          \<and> p \<in> cell_prism ps d (y + i) j}"
proof (induction rows arbitrary: y model)
  case Nil
  then show ?case by simp
next
  case (Cons row rows)
  have split: "{p. \<exists>i j. i < length (row # rows) \<and> j < length ((row # rows) ! i) \<and> (row # rows) ! i ! j
                          \<and> p \<in> cell_prism ps d (y + i) j} =
      {p. \<exists>j. j < length row \<and> row ! j \<and> p \<in> cell_prism ps d y (0 + j)}
      \<union> {p. \<exists>i j. i < length rows \<and> j < length (rows ! i) \<and> rows ! i ! j
                          \<and> p \<in> cell_prism ps d (Suc y + i) j}"
    (is "?L = ?R")
  proof (rule set_eqI)
    fix p
    show "p \<in> ?L \<longleftrightarrow> p \<in> ?R"
    proof
      assume "p \<in> ?L"
      then obtain i j where ij: "i < length (row # rows)" "j < length ((row # rows) ! i)"
          "(row # rows) ! i ! j" "p \<in> cell_prism ps d (y + i) j"
        by blast
      show "p \<in> ?R"
      proof (cases i)
        case 0
        then have "j < length row" "row ! j" "p \<in> cell_prism ps d y (0 + j)" using ij by simp_all
        then show ?thesis by blast
      next
        case (Suc k)
        then have "k < length rows" "j < length (rows ! k)" "rows ! k ! j"
            "p \<in> cell_prism ps d (Suc y + k) j"
          using ij by simp_all
        then show ?thesis by blast
      qed
    next
      assume "p \<in> ?R"
      then consider j where "j < length row" "row ! j" "p \<in> cell_prism ps d y (0 + j)"
        | k j where "k < length rows" "j < length (rows ! k)" "rows ! k ! j"
            "p \<in> cell_prism ps d (Suc y + k) j"
        by blast
      then show "p \<in> ?L"
      proof cases
        case 1
        then have "0 < length (row # rows) \<and> j < length ((row # rows) ! 0) \<and> (row # rows) ! 0 ! j
            \<and> p \<in> cell_prism ps d (y + 0) j"
          by simp
        then show ?thesis by blast
      next
        case 2
        then have "Suc k < length (row # rows) \<and> j < length ((row # rows) ! Suc k)
            \<and> (row # rows) ! Suc k ! j \<and> p \<in> cell_prism ps d (y + Suc k) j"
          by simp
        then show ?thesis by blast
      qed
    qed
  qed
  show ?case
    unfolding split qr_matrix_loop.simps Cons.IH pts_qr_row_loop
    by blast
qed

lemma pts_qr_scene:
  "pts g (Color c (qr_matrix_loop ps d 0 m EmptyUnion)) =
     (\<Union>(row, col)\<in>true_cells m. cell_prism ps d row col)"
  by (auto simp: pts_qr_matrix_loop true_cells_def)

lemma cell_prism_origin:
  assumes "0 \<le> cell" "0 \<le> d"
  shows "(real col * cell, real row * cell, 0) \<in> cell_prism cell d row col"
    and "(real col * cell + cell, real row * cell + cell, d) \<in> cell_prism cell d row col"
  using assms by (simp_all add: cell_prism_def prism_def)

lemma cell_prism_inside:
  assumes n: "0 < n" and w: "0 < w" and row: "row < n" and col: "col < n"
    and p: "(x, y, z) \<in> cell_prism (w / real n) d row col"
  shows "0 \<le> x \<and> x \<le> w \<and> 0 \<le> y \<and> y \<le> w \<and> 0 \<le> z \<and> z \<le> d"
proof -
  define c where "c = w / real n"
  have c: "0 \<le> c" using n w by (simp add: c_def)
  have nc: "real n * c = w" using n by (simp add: c_def)
  have up: "real k * c + c \<le> w" if "k < n" for k
  proof -
    have "real k + 1 \<le> real n" using that by simp
    then have "(real k + 1) * c \<le> real n * c" using c by (intro mult_right_mono)
    then show ?thesis unfolding nc by (simp add: distrib_right)
  qed
  have lo: "0 \<le> real k * c" for k using c by simp
  from p have "real col * c \<le> x" "x \<le> real col * c + c" "real row * c \<le> y"
      "y \<le> real row * c + c" "0 \<le> z" "z \<le> d"
    by (simp_all add: cell_prism_def prism_def c_def)
  then show ?thesis using up[OF row] up[OF col] lo[of row] lo[of col] by linarith
qed

text \<open>
  Claim C6. For a non-empty square matrix, \<open>target_width > 0\<close> and \<open>depth > 0\<close>, the relief is
  built without error and is exactly the union, over the set cells \<open>(row, col)\<close>, of the
  prisms of sizes \<open>cell_size \<times> cell_size \<times> depth\<close> with origin \<open>(col * cell_size, row *
  cell_size, 0)\<close>, where \<open>cell_size = target_width / n\<close>. It is empty exactly when no cell
  is set, and when the first and last row and column each hold a set cell its bounding
  box is \<open>(0, 0, 0)\<close> to \<open>(target_width, target_width, depth)\<close>.
\<close>

theorem qr_relief_geometry:
  assumes m: "m \<noteq> []" and sq: "\<forall>row\<in>set m. length row = length m"
    and w: "0 < w" and d: "0 < d"
  shows "\<exists>s. qr_relief m w d = Inr s
     \<and> pts g s = (\<Union>(row, col)\<in>true_cells m.
                     prism (real col * (w / real (length m))) (real row * (w / real (length m))) 0
                       (w / real (length m)) (w / real (length m)) d)
     \<and> (pts g s = {} \<longleftrightarrow> true_cells m = {})
     \<and> (extremes_set m \<longrightarrow> bounding_box (pts g s) (0, 0, 0) (w, w, d))"
proof -
  define n where "n = length m"
  define cell where "cell = w / real n"
  define s where "s = Color ''black'' (qr_matrix_loop cell d 0 m EmptyUnion)"
  have n: "0 < n" using m by (simp add: n_def)
  have cell: "0 \<le> cell" using n w by (simp add: cell_def)
  have d0: "0 \<le> d" using d by simp
  have ret: "qr_relief m w d = Inr s"
    using m by (simp add: qr_relief_def s_def cell_def n_def Let_def)
  have P: "pts g s = (\<Union>(row, col)\<in>true_cells m. cell_prism cell d row col)"
    unfolding s_def by (rule pts_qr_scene)
  have mem: "p \<in> pts g s \<longleftrightarrow> (\<exists>row col. (row, col) \<in> true_cells m \<and> p \<in> cell_prism cell d row col)" for p
    unfolding P by auto
  have cells_lt: "row < n \<and> col < n" if "(row, col) \<in> true_cells m" for row col
  proof -
    from that have r: "row < length m" and c: "col < length (m ! row)" by (simp_all add: true_cells_def)
    have "m ! row \<in> set m" using r by simp
    then have "length (m ! row) = length m" using sq by blast
    then show ?thesis using r c by (simp add: n_def)
  qed
  have empty: "pts g s = {} \<longleftrightarrow> true_cells m = {}"
  proof
    assume e: "pts g s = {}"
    show "true_cells m = {}"
    proof (rule ccontr)
      assume "true_cells m \<noteq> {}"
      then obtain row col where "(row, col) \<in> true_cells m" by auto
      then have "(real col * cell, real row * cell, 0) \<in> pts g s"
        unfolding mem using cell_prism_origin(1)[OF cell d0] by blast
      then show False using e by simp
    qed
  next
    assume "true_cells m = {}"
    then show "pts g s = {}" unfolding P by simp
  qed
  have inside: "0 \<le> x \<and> x \<le> w \<and> 0 \<le> y \<and> y \<le> w \<and> 0 \<le> z \<and> z \<le> d"
    if "(x, y, z) \<in> pts g s" for x y z
  proof -
    from that obtain row col where rc: "(row, col) \<in> true_cells m"
      and p: "(x, y, z) \<in> cell_prism cell d row col"
      unfolding mem by blast
    show ?thesis
      using cell_prism_inside[OF n w _ _ p[unfolded cell_def]] cells_lt[OF rc] by blast
  qed
  have nc: "real n * cell = w" using n by (simp add: cell_def)
  have last: "real (n - 1) * cell + cell = w"
  proof -
    have "real (n - 1) + 1 = real n" using n by simp
    then have "(real (n - 1) + 1) * cell = w" using nc by simp
    then show ?thesis by (simp add: algebra_simps)
  qed
  have bb: "bounding_box (pts g s) (0, 0, 0) (w, w, d)" if ex: "extremes_set m"
  proof -
    from ex obtain c0 cl r0 rl where
      t: "(0, c0) \<in> true_cells m" "(n - 1, cl) \<in> true_cells m"
         "(r0, 0) \<in> true_cells m" "(rl, n - 1) \<in> true_cells m"
      unfolding extremes_set_def n_def by blast
    have q1: "(real c0 * cell, 0, 0) \<in> pts g s"
      unfolding mem using cell_prism_origin(1)[OF cell d0, of c0 0] t(1) by auto
    have q2: "(real cl * cell + cell, w, d) \<in> pts g s"
      unfolding mem using cell_prism_origin(2)[OF cell d0, of cl "n - 1"] t(2) last by auto
    have q3: "(0, real r0 * cell, 0) \<in> pts g s"
      unfolding mem using cell_prism_origin(1)[OF cell d0, of 0 r0] t(3) by auto
    have q4: "(w, real rl * cell + cell, d) \<in> pts g s"
      unfolding mem using cell_prism_origin(2)[OF cell d0, of "n - 1" rl] t(4) last by auto
    show ?thesis
      unfolding bounding_box_def
    proof (intro conjI ballI)
      fix p assume p: "p \<in> pts g s"
      obtain x y z where xyz: "p = (x, y, z)" by (cases p) auto
      from inside[OF p[unfolded xyz]]
      show "px (0, 0, 0) \<le> px p" "px p \<le> px (w, w, d)" "py (0, 0, 0) \<le> py p"
        "py p \<le> py (w, w, d)" "pz (0, 0, 0) \<le> pz p" "pz p \<le> pz (w, w, d)"
        by (simp_all add: xyz px_def py_def pz_def)
    next
      show "\<exists>p\<in>pts g s. px p = px (0, 0, 0)" using q3 by (intro bexI[of _ "(0, real r0 * cell, 0)"]) (simp_all add: px_def)
      show "\<exists>p\<in>pts g s. px p = px (w, w, d)" using q4 by (intro bexI[of _ "(w, real rl * cell + cell, d)"]) (simp_all add: px_def)
      show "\<exists>p\<in>pts g s. py p = py (0, 0, 0)" using q1 by (intro bexI[of _ "(real c0 * cell, 0, 0)"]) (simp_all add: py_def)
      show "\<exists>p\<in>pts g s. py p = py (w, w, d)" using q2 by (intro bexI[of _ "(real cl * cell + cell, w, d)"]) (simp_all add: py_def)
      show "\<exists>p\<in>pts g s. pz p = pz (0, 0, 0)" using q1 by (intro bexI[of _ "(real c0 * cell, 0, 0)"]) (simp_all add: pz_def)
      show "\<exists>p\<in>pts g s. pz p = pz (w, w, d)" using q2 by (intro bexI[of _ "(real cl * cell + cell, w, d)"]) (simp_all add: pz_def)
    qed
  qed
  have P': "pts g s = (\<Union>(row, col)\<in>true_cells m.
                     prism (real col * (w / real (length m))) (real row * (w / real (length m))) 0
                       (w / real (length m)) (w / real (length m)) d)"
    unfolding P cell_prism_def cell_def n_def ..
  show ?thesis using ret P' empty bb by blast
qed

theorem qr_relief_geometry_witness:
  "\<exists>s. qr_relief [[True, False], [False, True]] 2 1 = Inr s
     \<and> pts (\<lambda>_ _ _ _ _. {}) s = prism 0 0 0 1 1 1 \<union> prism 1 1 0 1 1 1
     \<and> pts (\<lambda>_ _ _ _ _. {}) s \<noteq> {}
     \<and> bounding_box (pts (\<lambda>_ _ _ _ _. {}) s) (0, 0, 0) (2, 2, 1)"
proof -
  let ?m = "[[True, False], [False, True]]"
  have m: "?m \<noteq> []" by simp
  have sq: "\<forall>row\<in>set ?m. length row = length ?m" by simp
  have tc: "true_cells ?m = {(0, 0), (1, 1)}"
  proof (rule set_eqI)
    fix rc :: "nat \<times> nat"
    obtain r c where rc: "rc = (r, c)" by (cases rc) auto
    have "r < 2 \<longleftrightarrow> r = 0 \<or> r = 1" "c < 2 \<longleftrightarrow> c = 0 \<or> c = 1" by auto
    then show "rc \<in> true_cells ?m \<longleftrightarrow> rc \<in> {(0, 0), (1, 1)}"
      unfolding rc by (auto simp: true_cells_def)
  qed
  have ex: "extremes_set ?m" by (simp add: extremes_set_def tc)
  have pos: "(0::real) < 2" "(0::real) < 1" by simp_all
  from qr_relief_geometry[OF m sq pos, of "\<lambda>_ _ _ _ _. {}"]
  obtain s where s: "qr_relief ?m 2 1 = Inr s
     \<and> pts (\<lambda>_ _ _ _ _. {}) s = (\<Union>(row, col)\<in>true_cells ?m.
                     prism (real col * (2 / real (length ?m))) (real row * (2 / real (length ?m))) 0
                       (2 / real (length ?m)) (2 / real (length ?m)) 1)
     \<and> (pts (\<lambda>_ _ _ _ _. {}) s = {} \<longleftrightarrow> true_cells ?m = {})
     \<and> (extremes_set ?m \<longrightarrow> bounding_box (pts (\<lambda>_ _ _ _ _. {}) s) (0, 0, 0) (2, 2, 1))"
    by (rule exE)
  have s1: "qr_relief ?m 2 1 = Inr s" using s by (rule conjunct1)
  have s2: "pts (\<lambda>_ _ _ _ _. {}) s = (\<Union>(row, col)\<in>true_cells ?m.
                     prism (real col * (2 / real (length ?m))) (real row * (2 / real (length ?m))) 0
                       (2 / real (length ?m)) (2 / real (length ?m)) 1)"
    using s by (rule conjunct2[THEN conjunct1])
  have s3: "pts (\<lambda>_ _ _ _ _. {}) s = {} \<longleftrightarrow> true_cells ?m = {}"
    using s by (rule conjunct2[THEN conjunct2, THEN conjunct1])
  have s4: "bounding_box (pts (\<lambda>_ _ _ _ _. {}) s) (0, 0, 0) (2, 2, 1)"
    using s[THEN conjunct2, THEN conjunct2, THEN conjunct2] ex by (rule mp)
  have a: "pts (\<lambda>_ _ _ _ _. {}) s = prism 0 0 0 1 1 1 \<union> prism 1 1 0 1 1 1"
    unfolding s2 tc by simp
  have b: "pts (\<lambda>_ _ _ _ _. {}) s \<noteq> {}" unfolding s3 tc by simp
  show ?thesis using s1 a b s4 by (intro exI[of _ s] conjI)
qed

end
